theory Spec2Isabelle
  imports Main
begin

section \<open>Data model of substring\_search.c\<close>

text \<open>
  The program is a Windows program (\<^verbatim>\<open>windows.h\<close>, \<^verbatim>\<open>process.h\<close>), so the C type
  \<^verbatim>\<open>char\<close> is a signed byte. A HOL \<^typ>\<open>char\<close> is one byte; the two ways the source
  turns a byte into a number are written out: the integer promotion of a plain
  \<^verbatim>\<open>char\<close> (negative for the byte values 128 to 255) and the cast \<^verbatim>\<open>(unsigned char)\<close>.

  A C \<^verbatim>\<open>int\<close> has 32 bits. In the thread function \<open>search\<close> the result of every
  addition and subtraction that can leave the range is reduced by \<open>int32\<close>, as the
  compiled program does (C itself leaves signed overflow undefined). The lengths of
  the coordinator come from \<^verbatim>\<open>strlen\<close> and are taken to be below \<open>2^31 - 16\<close>, where its
  arithmetic does not leave the range.

  A pointer of type \<^verbatim>\<open>char *\<close> is modelled by the list of the bytes that are readable
  from the address on; \<^verbatim>\<open>p + k\<close> is \<open>drop k p\<close>. Reading outside the list is a \<open>fault\<close>.

  Indexing the shift table outside its 256 entries reads the \<^verbatim>\<open>int\<close> that lies there in
  memory, when there is one: the table is a member of a \<^verbatim>\<open>SearchArgs\<close> in the array
  \<^verbatim>\<open>searchArgs\<close> on the stack of \<open>search_in_file\<close>, so the other members, the element
  before it and the stack lie before the table. The model keeps these ints beside the
  struct, in \<open>below_table\<close>; an index that reaches no readable int is a \<open>fault\<close>.
\<close>

type_synonym memory = "char list"

datatype fault = AccessViolation | TableIndexOutOfBounds int

definition UNIQUE_CHARS :: nat where
  "UNIQUE_CHARS = 256"

definition MAX_THREADS :: int where
  "MAX_THREADS = 16"

definition NUL :: char where
  "NUL = CHR 0x00"

definition char_to_int :: "char \<Rightarrow> int" where
  \<comment> \<open>integer promotion of a (signed) \<^verbatim>\<open>char\<close>\<close>
  "char_to_int c = (if (of_char c :: int) < 128 then of_char c else of_char c - 256)"

definition unsigned_char :: "char \<Rightarrow> nat" where
  \<comment> \<open>the cast \<^verbatim>\<open>(unsigned char)c\<close>\<close>
  "unsigned_char c = of_char c"

definition deref :: "memory \<Rightarrow> int \<Rightarrow> fault + char" where
  \<comment> \<open>\<^verbatim>\<open>p[i]\<close> for a \<^verbatim>\<open>char *p\<close>\<close>
  "deref p i = (if 0 \<le> i \<and> i < int (length p) then Inr (p ! nat i) else Inl AccessViolation)"

definition int32 :: "int \<Rightarrow> int" where
  \<comment> \<open>the 32-bit two's complement value of an integer result\<close>
  "int32 x = (x + 2147483648) mod 4294967296 - 2147483648"

definition table_at :: "int list \<Rightarrow> int list \<Rightarrow> int \<Rightarrow> fault + int" where
  \<comment> \<open>\<^verbatim>\<open>badCharShiftTable[i]\<close> for the array \<^verbatim>\<open>int badCharShiftTable[UNIQUE_CHARS]\<close>;
      \<open>below\<close> holds the ints before the array, \<open>below ! 0\<close> at index \<open>-1\<close>\<close>
  "table_at t below i =
     (if 0 \<le> i \<and> i < int UNIQUE_CHARS then Inr (t ! nat i)
      else if i < 0 \<and> nat (- i) \<le> length below then Inr (below ! (nat (- i) - 1))
      else Inl (TableIndexOutOfBounds i))"

text \<open>
  The struct \<^verbatim>\<open>SearchArgs\<close>. The last field is not a member of the struct: it holds the
  ints that lie in memory before \<^verbatim>\<open>badCharShiftTable\<close>, the nearest first, as far as they
  can be read.
\<close>

record SearchArgs =
  text' :: memory
  textLength :: int
  pattern :: memory
  patternLength :: int
  badCharShiftTable :: "int list"
  found_at :: int
  below_table :: "int list"

section \<open>The thread function \<^verbatim>\<open>search\<close>\<close>

text \<open>
  The inner loop (line 96) compares the pattern with the text window from the last
  pattern byte backward; it returns the value of \<^verbatim>\<open>patternIndex\<close> at which it stops.
  (\<^verbatim>\<open>patternIndex--\<close> is applied to a value that is not negative and cannot overflow.)
\<close>

function compare_loop :: "memory \<Rightarrow> memory \<Rightarrow> int \<Rightarrow> int \<Rightarrow> fault + int" where
  "compare_loop pat txt patternShift patternIndex =
     (if patternIndex \<ge> 0 then
        (case deref pat patternIndex of
           Inl f \<Rightarrow> Inl f
         | Inr pc \<Rightarrow>
            (case deref txt (int32 (patternShift + patternIndex)) of
               Inl f \<Rightarrow> Inl f
             | Inr tc \<Rightarrow>
                if pc = tc then compare_loop pat txt patternShift (patternIndex - 1)
                else Inr patternIndex))
      else Inr patternIndex)"
  by pat_completeness auto
termination
  by (relation "measure (\<lambda>(pat, txt, patternShift, patternIndex). nat (patternIndex + 1))") auto

text \<open>
  One pass through the body of the outer loop (lines 90 to 116) at the shift
  \<^verbatim>\<open>patternShift\<close>: it returns from \<open>search\<close>, or goes on with the next shift. The macro
  \<^verbatim>\<open>max\<close> of \<^verbatim>\<open>windows.h\<close> is the larger of its two arguments.
\<close>

datatype step = Continue int | Return "fault + SearchArgs"

definition search_step :: "SearchArgs \<Rightarrow> int \<Rightarrow> step" where
  "search_step searchArgs patternShift =
     (case compare_loop (pattern searchArgs) (text' searchArgs) patternShift
             (int32 (patternLength searchArgs - 1)) of
        Inl f \<Rightarrow> Return (Inl f)
      | Inr patternIndex \<Rightarrow>
         if patternIndex < 0 then Return (Inr (searchArgs\<lparr>found_at := patternShift\<rparr>))
         else
           (case deref (text' searchArgs) (int32 (patternShift + patternIndex)) of
              Inl f \<Rightarrow> Return (Inl f)
            | Inr c \<Rightarrow>
               (case table_at (badCharShiftTable searchArgs) (below_table searchArgs)
                       (char_to_int c) of
                  Inl f \<Rightarrow> Return (Inl f)
                | Inr entry \<Rightarrow>
                   Continue (int32 (patternShift + max 1 (int32 (patternIndex - entry)))))))"

text \<open>
  The outer loop (lines 88 to 117), started at \<^verbatim>\<open>patternShift\<close>. It is defined without
  a termination argument: \<open>None\<close> stands for a loop that never ends.
\<close>

partial_function (option) search_loop :: "SearchArgs \<Rightarrow> int \<Rightarrow> (fault + SearchArgs) option" where
  "search_loop searchArgs patternShift =
     (if patternShift \<le> int32 (textLength searchArgs - patternLength searchArgs) then
        (case search_step searchArgs patternShift of
           Return result \<Rightarrow> Some result
         | Continue nextShift \<Rightarrow> search_loop searchArgs nextShift)
      else Some (Inr (searchArgs\<lparr>found_at := - 1\<rparr>)))"

declare search_loop.simps [code]

definition search :: "SearchArgs \<Rightarrow> (fault + SearchArgs) option" where
  "search searchArgs = search_loop searchArgs 0"

section \<open>\<^verbatim>\<open>generateBadCharacterShiftTable\<close>\<close>

function init_loop :: "nat \<Rightarrow> int list \<Rightarrow> int list" where
  "init_loop characterIndex t =
     (if characterIndex < UNIQUE_CHARS
      then init_loop (characterIndex + 1) (t[characterIndex := - 1])
      else t)"
  by pat_completeness auto
termination
  by (relation "measure (\<lambda>(characterIndex, t). UNIQUE_CHARS - characterIndex)") auto

function fill_loop :: "memory \<Rightarrow> int \<Rightarrow> int \<Rightarrow> int list \<Rightarrow> fault + int list" where
  "fill_loop pat patLength patternIndex t =
     (if patternIndex < patLength then
        (case deref pat patternIndex of
           Inl f \<Rightarrow> Inl f
         | Inr c \<Rightarrow> fill_loop pat patLength (patternIndex + 1) (t[unsigned_char c := patternIndex]))
      else Inr t)"
  by pat_completeness auto
termination
  by (relation "measure (\<lambda>(pat, patLength, patternIndex, t). nat (patLength - patternIndex))") auto

definition generateBadCharacterShiftTable :: "memory \<Rightarrow> int \<Rightarrow> int list \<Rightarrow> fault + int list" where
  \<comment> \<open>the array argument is updated in place; the model returns the updated array\<close>
  "generateBadCharacterShiftTable pat patLength t = fill_loop pat patLength 0 (init_loop 0 t)"

section \<open>The coordinator \<^verbatim>\<open>search_in_file\<close>\<close>

text \<open>
  The operating system is an explicit environment: what \<^verbatim>\<open>CreateFile\<close>,
  \<^verbatim>\<open>CreateFileMapping\<close>, \<^verbatim>\<open>MapViewOfFile\<close> and \<^verbatim>\<open>_beginthreadex\<close> answer. The
  effects of the coordinator are the sequence of its calls that acquire or release a
  resource, print, build the table, start a thread or wait for one; the model returns
  this sequence together with the \<^verbatim>\<open>return\<close> statement that ended the run.
  (\<^verbatim>\<open>GetLastError\<close>, \<^verbatim>\<open>strlen\<close>, \<^verbatim>\<open>clock\<close> and \<^verbatim>\<open>memcpy\<close> are not recorded.)
  The elapsed time printed with \<^verbatim>\<open>%.6f\<close> is not modelled: it is the argument
  \<open>Arg_seconds\<close>.
\<close>

datatype handle = File | FileMapping | Thread int

datatype arg = Arg_string string | Arg_ulong nat | Arg_seconds

datatype call =
    Call_CreateFile
  | Call_CreateFileMapping
  | Call_MapViewOfFile
  | Call_CloseHandle handle
  | Call_UnmapViewOfFile
  | Call_printf string "arg list"
  | Call_generateBadCharacterShiftTable
  | Call_beginthreadex int
  | Call_WaitForSingleObject handle

datatype win_error = ERROR_FILE_NOT_FOUND | ERROR_ACCESS_DENIED | ERROR_other nat

text \<open>
  The program is built for Windows with 4-byte or with 8-byte pointers. The members of
  \<^verbatim>\<open>SearchArgs\<close> before \<^verbatim>\<open>badCharShiftTable\<close> take the room of 4 ints in the first case
  (two pointers and two ints) and of 7 ints in the second (two pointers of 8 bytes, two
  ints and 4 bytes of padding after \<^verbatim>\<open>textLength\<close>).
\<close>

datatype target = Win32 | Win64

definition ints_before_table :: "target \<Rightarrow> int" where
  "ints_before_table tg = (case tg of Win32 \<Rightarrow> 4 | Win64 \<Rightarrow> 7)"

record environment =
  CreateFile_result :: "win_error option"
    \<comment> \<open>\<open>None\<close>: a valid handle; \<open>Some e\<close>: \<^verbatim>\<open>INVALID_HANDLE_VALUE\<close> with last error \<open>e\<close>\<close>
  CreateFileMapping_result :: "nat option"
    \<comment> \<open>\<open>None\<close>: a mapping handle; \<open>Some e\<close>: \<^verbatim>\<open>NULL\<close> with last error \<open>e\<close>\<close>
  MapViewOfFile_result :: "nat + memory"
    \<comment> \<open>\<open>Inr m\<close>: a pointer from which the bytes \<open>m\<close> are readable; \<open>Inl e\<close>: \<^verbatim>\<open>NULL\<close>\<close>
  thread_created :: "int \<Rightarrow> bool"
    \<comment> \<open>whether \<^verbatim>\<open>_beginthreadex\<close> succeeds for the thread of this index\<close>
  target :: target
    \<comment> \<open>the platform the program was compiled for\<close>
  stack_int :: "int \<Rightarrow> int \<Rightarrow> int"
    \<comment> \<open>\<open>stack_int env t i\<close>: what the thread \<open>t\<close> finds at \<^verbatim>\<open>badCharShiftTable[i]\<close>, \<open>i < -1\<close>,
        where the model does not say what lies there: a half of a pointer, padding, a
        length, a \<^verbatim>\<open>found_at\<close> that another thread may be writing, or the stack below
        \<^verbatim>\<open>searchArgs\<close>\<close>

datatype outcome =
    Open_failed
  | Mapping_failed
  | View_failed
  | File_is_empty
  | Pattern_is_empty
  | Pattern_longer_than_file
  | Thread_creation_failed
  | Found int int  \<comment> \<open>\<^verbatim>\<open>threadIndex\<close> and \<^verbatim>\<open>found_at\<close> at the \<^verbatim>\<open>return\<close> of line 327\<close>
  | Not_found
  | Crash fault

definition strlen :: "memory \<Rightarrow> fault + int" where
  "strlen s =
     (if NUL \<in> set s then Inr (int (length (takeWhile (\<lambda>c. c \<noteq> NUL) s)))
      else Inl AccessViolation)"

definition c_string :: "memory \<Rightarrow> string" where
  \<comment> \<open>what \<^verbatim>\<open>%s\<close> prints\<close>
  "c_string s = takeWhile (\<lambda>c. c \<noteq> NUL) s"

text \<open>Lines 256 to 265: \<^verbatim>\<open>chunkSize\<close>, \<^verbatim>\<open>extra\<close> and \<^verbatim>\<open>numThreads\<close>.\<close>

definition divide_into_chunks :: "int \<Rightarrow> int \<Rightarrow> int \<times> int \<times> int" where
  "divide_into_chunks txtLength patLength =
     (let chunkSize = txtLength div MAX_THREADS;
          extra = txtLength mod MAX_THREADS;
          numThreads = MAX_THREADS
      in if chunkSize < patLength then (txtLength, extra, 1)
         else (chunkSize, extra, numThreads))"

text \<open>
  Lines 289 to 294: the arguments of the thread \<^verbatim>\<open>threadIndex\<close>. What lies before the
  table is not set by these lines; \<open>searchArgs_element\<close> below adds it for the element of
  the stack array.
\<close>

definition fill_searchArgs ::
  "memory \<Rightarrow> memory \<Rightarrow> int \<Rightarrow> int list \<Rightarrow> int \<times> int \<times> int \<Rightarrow> int \<Rightarrow> SearchArgs" where
  "fill_searchArgs fileContent substring patLength table chunks threadIndex =
     (case chunks of (chunkSize, extra, numThreads) \<Rightarrow>
        \<lparr> text' = drop (nat (threadIndex * chunkSize)) fileContent,
          textLength = (if threadIndex = numThreads - 1 then chunkSize + extra else chunkSize),
          pattern = substring,
          patternLength = patLength,
          badCharShiftTable = table,
          found_at = - 1,
          below_table = [] \<rparr>)"

text \<open>
  What lies before the table of \<^verbatim>\<open>searchArgs[threadIndex]\<close>, from index \<open>-1\<close> down to
  \<open>-128\<close>, the least index a \<^verbatim>\<open>char\<close> can give. At \<open>-1\<close> lies the member declared just
  before the table, \<^verbatim>\<open>patternLength\<close>. The other members of the struct follow, and then
  the element \<^verbatim>\<open>searchArgs[threadIndex - 1]\<close> from its end: its \<^verbatim>\<open>found_at\<close> and its copy of
  the table, the entry 255 first. Before \<^verbatim>\<open>searchArgs[0]\<close> lies the stack.
\<close>

definition before_the_table :: "environment \<Rightarrow> int list \<Rightarrow> int \<Rightarrow> int \<Rightarrow> int list" where
  "before_the_table env table patLength threadIndex =
     (if 1 \<le> threadIndex then
        patLength
        # map (\<lambda>k. stack_int env threadIndex (- k)) [2..ints_before_table (target env) + 1]
        @ rev (drop (nat (ints_before_table (target env) + 129)) table)
      else
        patLength # map (\<lambda>k. stack_int env threadIndex (- k)) [2..128])"

text \<open>The element \<^verbatim>\<open>searchArgs[threadIndex]\<close> as the thread finds it in the stack array.\<close>

definition searchArgs_element ::
  "environment \<Rightarrow> memory \<Rightarrow> memory \<Rightarrow> int \<Rightarrow> int list \<Rightarrow> int \<times> int \<times> int \<Rightarrow> int \<Rightarrow> SearchArgs" where
  "searchArgs_element env fileContent substring patLength table chunks threadIndex =
     (fill_searchArgs fileContent substring patLength table chunks threadIndex)
       \<lparr>below_table := before_the_table env table patLength threadIndex\<rparr>"

text \<open>
  Lines 287 to 312: the threads are created in index order; the first creation that
  fails ends the run. The result is whether all threads were created.
\<close>

function create_threads :: "environment \<Rightarrow> int \<Rightarrow> int \<Rightarrow> call list \<Rightarrow> bool \<times> call list" where
  "create_threads env numThreads threadIndex tr =
     (if threadIndex < numThreads then
        (if thread_created env threadIndex
         then create_threads env numThreads (threadIndex + 1)
                (tr @ [Call_beginthreadex threadIndex])
         else (False,
               tr @ [Call_beginthreadex threadIndex,
                     Call_printf ''Thread creation failed.\<newline>'' []]
                  @ map (\<lambda>failedThreadIndex. Call_CloseHandle (Thread failedThreadIndex))
                      [0..threadIndex - 1]
                  @ [Call_UnmapViewOfFile, Call_CloseHandle FileMapping, Call_CloseHandle File]))
      else (True, tr))"
  by pat_completeness auto
termination
  by (relation "measure (\<lambda>(env, numThreads, threadIndex, tr). nat (numThreads - threadIndex))")
     auto

text \<open>
  Lines 315 to 337. Each thread writes only its own \<^verbatim>\<open>SearchArgs\<close> and reads memory
  that nobody writes, so what the coordinator reads after waiting for a thread is the
  result of \<open>search\<close> on that thread's arguments. A fault of a thread is observed when
  the coordinator waits for it.
\<close>

function join_threads ::
  "memory \<Rightarrow> SearchArgs list \<Rightarrow> int \<Rightarrow> int \<Rightarrow> call list \<Rightarrow> (outcome \<times> call list) option" where
  "join_threads substring searchArgs numThreads threadIndex tr =
     (if threadIndex < numThreads then
        (case search (searchArgs ! nat threadIndex) of
           None \<Rightarrow> None
         | Some (Inl f) \<Rightarrow> Some (Crash f, tr)
         | Some (Inr finished) \<Rightarrow>
            (let tr' = tr @ [Call_WaitForSingleObject (Thread threadIndex),
                             Call_CloseHandle (Thread threadIndex)]
             in if found_at finished \<ge> 0
                then Some (Found threadIndex (found_at finished),
                           tr' @ [Call_printf ''Found '%s'\<newline>Time taken: %.6f seconds\<newline>''
                                    [Arg_string (c_string substring), Arg_seconds]])
                else join_threads substring searchArgs numThreads (threadIndex + 1) tr'))
      else Some (Not_found,
                 tr @ [Call_printf '''%s' not found in the file. Searched in %.6f seconds.\<newline>''
                         [Arg_string (c_string substring), Arg_seconds],
                       Call_UnmapViewOfFile, Call_CloseHandle FileMapping, Call_CloseHandle File]))"
  by pat_completeness auto
termination
  by (relation "measure (\<lambda>(substring, searchArgs, numThreads, threadIndex, tr).
                           nat (numThreads - threadIndex))") auto

text \<open>
  Lines 247 to 338, after the validation. The local array \<^verbatim>\<open>badCharShiftTable\<close> is
  not initialised; \<open>generateBadCharacterShiftTable\<close> overwrites all of it, the model
  starts it from zeros.
\<close>

definition run_search ::
  "environment \<Rightarrow> memory \<Rightarrow> memory \<Rightarrow> int \<Rightarrow> int \<Rightarrow> call list \<Rightarrow> (outcome \<times> call list) option" where
  "run_search env fileContent substring txtLength patLength tr =
     (case generateBadCharacterShiftTable substring patLength (replicate UNIQUE_CHARS 0) of
        Inl f \<Rightarrow> Some (Crash f, tr @ [Call_generateBadCharacterShiftTable])
      | Inr table \<Rightarrow>
         (let chunks = divide_into_chunks txtLength patLength;
              numThreads = snd (snd chunks);
              searchArgs = map (searchArgs_element env fileContent substring patLength table chunks)
                             [0..numThreads - 1]
          in case create_threads env numThreads 0 (tr @ [Call_generateBadCharacterShiftTable]) of
               (False, tr') \<Rightarrow> Some (Thread_creation_failed, tr')
             | (True, tr') \<Rightarrow> join_threads substring searchArgs numThreads 0 tr'))"

definition search_in_file :: "environment \<Rightarrow> string \<Rightarrow> memory \<Rightarrow> (outcome \<times> call list) option" where
  "search_in_file env file_name substring =
     (case CreateFile_result env of
        Some error \<Rightarrow>
          Some (Open_failed,
                [Call_CreateFile,
                 (case error of
                    ERROR_FILE_NOT_FOUND \<Rightarrow>
                      Call_printf ''File not found: %s\<newline>'' [Arg_string file_name]
                  | ERROR_ACCESS_DENIED \<Rightarrow>
                      Call_printf ''Access denied: %s\<newline>'' [Arg_string file_name]
                  | ERROR_other e \<Rightarrow>
                      Call_printf ''An unexpected error occurred opening %s: %lu\<newline>''
                        [Arg_string file_name, Arg_ulong e])])
      | None \<Rightarrow>
     (case CreateFileMapping_result env of
        Some error \<Rightarrow>
          Some (Mapping_failed,
                [Call_CreateFile, Call_CreateFileMapping,
                 Call_printf ''Could not create file mapping. Error: %lu\<newline>'' [Arg_ulong error],
                 Call_CloseHandle File])
      | None \<Rightarrow>
     (case MapViewOfFile_result env of
        Inl error \<Rightarrow>
          Some (View_failed,
                [Call_CreateFile, Call_CreateFileMapping, Call_MapViewOfFile,
                 Call_printf ''Could not map view of file. Error: %lu\<newline>'' [Arg_ulong error],
                 Call_CloseHandle FileMapping, Call_CloseHandle File])
      | Inr fileContent \<Rightarrow>
     (let tr = [Call_CreateFile, Call_CreateFileMapping, Call_MapViewOfFile] in
      case strlen fileContent of
        Inl f \<Rightarrow> Some (Crash f, tr)
      | Inr txtLength \<Rightarrow>
     (case strlen substring of
        Inl f \<Rightarrow> Some (Crash f, tr)
      | Inr patLength \<Rightarrow>
          if txtLength = 0 then
            Some (File_is_empty, tr @ [Call_printf ''File is empty: %s\<newline>'' [Arg_string file_name]])
          else if patLength = 0 then
            Some (Pattern_is_empty,
                  tr @ [Call_printf ''Pattern is empty, nothing to search for.\<newline>'' []])
          else if patLength > txtLength then
            Some (Pattern_longer_than_file,
                  tr @ [Call_printf
                     ''Pattern length is greater than the file content length, pattern will not be found.\<newline>''
                     []])
          else run_search env fileContent substring txtLength patLength tr)))))"

text \<open>
  The calls of the waiting loop for the threads \<open>first\<close> to \<open>last'\<close>, used to state what a run
  has done.
\<close>

definition joined :: "int \<Rightarrow> int \<Rightarrow> call list" where
  "joined first last' =
     concat (map (\<lambda>threadIndex. [Call_WaitForSingleObject (Thread threadIndex),
                                 Call_CloseHandle (Thread threadIndex)]) [first..last'])"

text \<open>
  An environment in which every system call succeeds and the view holds the given
  bytes, with 8-byte pointers and zeros where the model leaves the memory before a
  table open.
\<close>

definition all_succeed :: "memory \<Rightarrow> environment" where
  "all_succeed view =
     \<lparr> CreateFile_result = None, CreateFileMapping_result = None,
       MapViewOfFile_result = Inr view, thread_created = (\<lambda>threadIndex. True),
       target = Win64, stack_int = (\<lambda>threadIndex i. 0) \<rparr>"

section \<open>Notions used to state the properties\<close>

text \<open>
  A byte below 128: for such a byte the signed and the unsigned reading agree.
\<close>

definition seven_bit :: "char \<Rightarrow> bool" where
  "seven_bit c = ((of_char c :: nat) < 128)"

text \<open>
  The first \<open>m\<close> bytes of \<open>pat\<close> stand in \<open>txt\<close> at offset \<open>q\<close>.
\<close>

definition matches_at :: "memory \<Rightarrow> int \<Rightarrow> memory \<Rightarrow> int \<Rightarrow> bool" where
  "matches_at pat m txt q = (\<forall>j. 0 \<le> j \<and> j < m \<longrightarrow> txt ! nat (q + j) = pat ! nat j)"

text \<open>
  What the scan needs of a shift table: the entry of every byte is \<open>-1\<close> when the byte
  does not occur among the first \<open>m\<close> pattern bytes, and otherwise the last index
  below \<open>m\<close> that holds it.
\<close>

definition table_for :: "memory \<Rightarrow> int \<Rightarrow> int list \<Rightarrow> bool" where
  "table_for pat m t =
     (\<forall>c. ((\<forall>i. 0 \<le> i \<and> i < m \<longrightarrow> pat ! nat i \<noteq> c) \<and> t ! unsigned_char c = - 1)
        \<or> (0 \<le> t ! unsigned_char c \<and> t ! unsigned_char c < m \<and> pat ! nat (t ! unsigned_char c) = c
            \<and> (\<forall>i. t ! unsigned_char c < i \<and> i < m \<longrightarrow> pat ! nat i \<noteq> c)))"

text \<open>
  The recursive equations of each loop are unfolded by hand in the proofs, one
  iteration at a time.
\<close>

declare compare_loop.simps [simp del]
declare init_loop.simps [simp del]
declare fill_loop.simps [simp del]
declare create_threads.simps [simp del]
declare join_threads.simps [simp del]

section \<open>The shift table\<close>

lemma unsigned_char_less: "unsigned_char c < UNIQUE_CHARS"
  by (simp add: unsigned_char_def UNIQUE_CHARS_def)

lemma unsigned_char_eq_iff: "unsigned_char c = unsigned_char d \<longleftrightarrow> c = d"
  by (simp add: unsigned_char_def)

lemma length_init_loop: "length (init_loop i t) = length t"
  by (induction i t rule: init_loop.induct) (subst init_loop.simps, simp)

lemma nth_init_loop:
  "j < length t \<Longrightarrow> init_loop i t ! j = (if i \<le> j \<and> j < UNIQUE_CHARS then - 1 else t ! j)"
proof (induction i t rule: init_loop.induct)
  case (1 i t)
  show ?case
  proof (cases "i < UNIQUE_CHARS")
    case True
    have "init_loop i t ! j = init_loop (i + 1) (t[i := - 1]) ! j"
      by (subst init_loop.simps) (simp add: True)
    also have "\<dots> = (if i + 1 \<le> j \<and> j < UNIQUE_CHARS then - 1 else t[i := - 1] ! j)"
      using "1.IH" [OF True] "1.prems" by simp
    also have "\<dots> = (if i \<le> j \<and> j < UNIQUE_CHARS then - 1 else t ! j)"
      using "1.prems" True by (auto simp: nth_list_update)
    finally show ?thesis .
  next
    case False
    then show ?thesis by (subst init_loop.simps) auto
  qed
qed

text \<open>
  The second loop, started at index \<open>k\<close>: an entry is either untouched, and its byte
  does not occur from \<open>k\<close> on, or it is the last index from \<open>k\<close> on that holds its byte.
\<close>

lemma fill_loop_spec:
  assumes "0 \<le> k" "k \<le> m" "m \<le> int (length p)" "length t = UNIQUE_CHARS"
  shows "\<exists>t'. fill_loop p m k t = Inr t' \<and> length t' = UNIQUE_CHARS \<and>
     (\<forall>c. ((\<forall>i. k \<le> i \<and> i < m \<longrightarrow> p ! nat i \<noteq> c) \<and> t' ! unsigned_char c = t ! unsigned_char c)
        \<or> (k \<le> t' ! unsigned_char c \<and> t' ! unsigned_char c < m \<and> p ! nat (t' ! unsigned_char c) = c
            \<and> (\<forall>i. t' ! unsigned_char c < i \<and> i < m \<longrightarrow> p ! nat i \<noteq> c)))"
  using assms
proof (induction "nat (m - k)" arbitrary: k t)
  case 0
  then have "k = m" by simp
  then have "fill_loop p m k t = Inr t" by (subst fill_loop.simps) simp
  moreover have "\<forall>i. k \<le> i \<and> i < m \<longrightarrow> p ! nat i \<noteq> c" for c using \<open>k = m\<close> by auto
  ultimately show ?case using "0.prems" by blast
next
  case (Suc n)
  then have lt: "k < m" by simp
  define c0 where "c0 = p ! nat k"
  have d: "deref p k = Inr c0"
    using Suc.prems lt by (simp add: deref_def c0_def)
  have step: "fill_loop p m k t = fill_loop p m (k + 1) (t[unsigned_char c0 := k])"
    by (subst fill_loop.simps) (simp add: lt d)
  have "n = nat (m - (k + 1))" using Suc.hyps(2) by simp
  from Suc.hyps(1) [OF this, of "t[unsigned_char c0 := k]"] Suc.prems lt
  obtain t' where t': "fill_loop p m (k + 1) (t[unsigned_char c0 := k]) = Inr t'"
      "length t' = UNIQUE_CHARS"
      "\<And>c. ((\<forall>i. k + 1 \<le> i \<and> i < m \<longrightarrow> p ! nat i \<noteq> c)
               \<and> t' ! unsigned_char c = t[unsigned_char c0 := k] ! unsigned_char c)
        \<or> (k + 1 \<le> t' ! unsigned_char c \<and> t' ! unsigned_char c < m \<and> p ! nat (t' ! unsigned_char c) = c
            \<and> (\<forall>i. t' ! unsigned_char c < i \<and> i < m \<longrightarrow> p ! nat i \<noteq> c))"
    by auto
  have "((\<forall>i. k \<le> i \<and> i < m \<longrightarrow> p ! nat i \<noteq> c) \<and> t' ! unsigned_char c = t ! unsigned_char c)
        \<or> (k \<le> t' ! unsigned_char c \<and> t' ! unsigned_char c < m \<and> p ! nat (t' ! unsigned_char c) = c
            \<and> (\<forall>i. t' ! unsigned_char c < i \<and> i < m \<longrightarrow> p ! nat i \<noteq> c))" for c
  proof -
    from t'(3) [of c] show ?thesis
    proof
      assume a: "(\<forall>i. k + 1 \<le> i \<and> i < m \<longrightarrow> p ! nat i \<noteq> c)
               \<and> t' ! unsigned_char c = t[unsigned_char c0 := k] ! unsigned_char c"
      show ?thesis
      proof (cases "c = c0")
        case True
        have "t' ! unsigned_char c = k"
          using a True Suc.prems(4) unsigned_char_less [of c0] by simp
        moreover have "\<forall>i. k < i \<and> i < m \<longrightarrow> p ! nat i \<noteq> c" using a by auto
        ultimately show ?thesis using lt True c0_def by simp
      next
        case False
        have "t' ! unsigned_char c = t ! unsigned_char c"
          using a False by (simp add: unsigned_char_eq_iff)
        moreover have "p ! nat i \<noteq> c" if "k \<le> i \<and> i < m" for i
        proof (cases "i = k")
          case True
          then show ?thesis using False c0_def by simp
        next
          case False
          then show ?thesis using a that by auto
        qed
        ultimately show ?thesis by blast
      qed
    next
      assume "k + 1 \<le> t' ! unsigned_char c \<and> t' ! unsigned_char c < m \<and> p ! nat (t' ! unsigned_char c) = c
            \<and> (\<forall>i. t' ! unsigned_char c < i \<and> i < m \<longrightarrow> p ! nat i \<noteq> c)"
      then show ?thesis by auto
    qed
  qed
  then show ?case using step t'(1,2) by auto
qed

lemma generated_table_for:
  assumes "0 \<le> m" "m \<le> int (length p)" "length t = UNIQUE_CHARS"
  shows "\<exists>table. generateBadCharacterShiftTable p m t = Inr table \<and> length table = UNIQUE_CHARS
            \<and> table_for p m table"
proof -
  have len: "length (init_loop 0 t) = UNIQUE_CHARS"
    using assms(3) by (simp add: length_init_loop)
  have init: "init_loop 0 t ! unsigned_char c = - 1" for c
    using nth_init_loop [of "unsigned_char c" t 0] assms(3) unsigned_char_less [of c] by simp
  from fill_loop_spec [of 0 m p "init_loop 0 t"] assms len
  obtain table where tb: "fill_loop p m 0 (init_loop 0 t) = Inr table"
      "length table = UNIQUE_CHARS"
      "\<forall>c. ((\<forall>i. 0 \<le> i \<and> i < m \<longrightarrow> p ! nat i \<noteq> c)
               \<and> table ! unsigned_char c = init_loop 0 t ! unsigned_char c)
        \<or> (0 \<le> table ! unsigned_char c \<and> table ! unsigned_char c < m
            \<and> p ! nat (table ! unsigned_char c) = c
            \<and> (\<forall>i. table ! unsigned_char c < i \<and> i < m \<longrightarrow> p ! nat i \<noteq> c))"
    by auto
  from tb(3) have "table_for p m table"
    unfolding table_for_def init by simp
  with tb(1,2) show ?thesis by (simp add: generateBadCharacterShiftTable_def)
qed

text \<open>
  Claim C2. For a pattern of length \<open>m \<ge> 1\<close>, \<open>generateBadCharacterShiftTable\<close> returns
  a table of 256 entries in which the entry of every byte value \<open>c\<close> is the greatest
  index below \<open>m\<close> at which the pattern holds \<open>c\<close>, and \<open>-1\<close> when \<open>c\<close> does not occur in
  the pattern. The table is a function of the pattern alone: what the array held
  before the call does not matter.
\<close>

theorem generateBadCharacterShiftTable_rightmost:
  assumes "1 \<le> m" "m \<le> int (length p)" "length t = UNIQUE_CHARS"
  shows "\<exists>table. generateBadCharacterShiftTable p m t = Inr table \<and> length table = UNIQUE_CHARS \<and>
      (\<forall>c. table ! unsigned_char c =
            (if \<exists>i < nat m. p ! i = c then int (Max {i. i < nat m \<and> p ! i = c}) else - 1))"
proof -
  have len: "length (init_loop 0 t) = UNIQUE_CHARS"
    using assms(3) by (simp add: length_init_loop)
  from fill_loop_spec [of 0 m p "init_loop 0 t"] assms len
  obtain table where tb: "fill_loop p m 0 (init_loop 0 t) = Inr table"
      "length table = UNIQUE_CHARS"
      "\<And>c. ((\<forall>i. 0 \<le> i \<and> i < m \<longrightarrow> p ! nat i \<noteq> c)
               \<and> table ! unsigned_char c = init_loop 0 t ! unsigned_char c)
        \<or> (0 \<le> table ! unsigned_char c \<and> table ! unsigned_char c < m
            \<and> p ! nat (table ! unsigned_char c) = c
            \<and> (\<forall>i. table ! unsigned_char c < i \<and> i < m \<longrightarrow> p ! nat i \<noteq> c))"
    by auto
  have "table ! unsigned_char c =
            (if \<exists>i < nat m. p ! i = c then int (Max {i. i < nat m \<and> p ! i = c}) else - 1)" for c
  proof -
    from tb(3) [of c] show ?thesis
    proof
      assume a: "(\<forall>i. 0 \<le> i \<and> i < m \<longrightarrow> p ! nat i \<noteq> c)
               \<and> table ! unsigned_char c = init_loop 0 t ! unsigned_char c"
      have "\<not> (\<exists>i < nat m. p ! i = c)"
      proof
        assume "\<exists>i < nat m. p ! i = c"
        then obtain i where "i < nat m" "p ! i = c" by blast
        with a have "p ! nat (int i) \<noteq> c" by (metis of_nat_0_le_iff zless_nat_conj nat_int)
        with \<open>p ! i = c\<close> show False by simp
      qed
      moreover have "init_loop 0 t ! unsigned_char c = - 1"
        using nth_init_loop [of "unsigned_char c" t 0] assms(3) unsigned_char_less [of c] by simp
      ultimately show ?thesis using a by simp
    next
      assume b: "0 \<le> table ! unsigned_char c \<and> table ! unsigned_char c < m
            \<and> p ! nat (table ! unsigned_char c) = c
            \<and> (\<forall>i. table ! unsigned_char c < i \<and> i < m \<longrightarrow> p ! nat i \<noteq> c)"
      define v where "v = nat (table ! unsigned_char c)"
      have v: "v < nat m" "p ! v = c" "int v = table ! unsigned_char c"
        using b by (auto simp: v_def)
      have "i \<le> v" if "i < nat m" "p ! i = c" for i
      proof (rule ccontr)
        assume "\<not> i \<le> v"
        then have "table ! unsigned_char c < int i \<and> int i < m" using that v by auto
        with b have "p ! nat (int i) \<noteq> c" by blast
        with that show False by simp
      qed
      then have "Max {i. i < nat m \<and> p ! i = c} = v"
        using v by (intro Max_eqI) auto
      then show ?thesis using v by auto
    qed
  qed
  then show ?thesis using tb(1,2) by (auto simp: generateBadCharacterShiftTable_def)
qed

theorem generateBadCharacterShiftTable_rightmost_witness:
  "(1::int) \<le> 4 \<and> 4 \<le> int (length (''abca'' @ [NUL]))
   \<and> length (replicate 256 (0::int)) = UNIQUE_CHARS
   \<and> (\<exists>table. generateBadCharacterShiftTable (''abca'' @ [NUL]) 4 (replicate 256 0) = Inr table
        \<and> length table = UNIQUE_CHARS
        \<and> (\<forall>c. table ! unsigned_char c =
            (if \<exists>i < nat 4. (''abca'' @ [NUL]) ! i = c
             then int (Max {i. i < nat 4 \<and> (''abca'' @ [NUL]) ! i = c}) else - 1)))"
proof -
  have h1: "(1::int) \<le> 4" by simp
  have h2: "4 \<le> int (length (''abca'' @ [NUL]))" by simp
  have h3: "length (replicate 256 (0::int)) = UNIQUE_CHARS" by (simp add: UNIQUE_CHARS_def)
  from generateBadCharacterShiftTable_rightmost [OF h1 h2 h3] h1 h2 h3
  show ?thesis by blast
qed

section \<open>The scan of one chunk\<close>

text \<open>
  A result that lies in the range of a 32-bit int is not changed by the reduction to
  32 bits.
\<close>

lemma int32_id: "- 2147483648 \<le> x \<Longrightarrow> x < 2147483648 \<Longrightarrow> int32 x = x"
  by (simp add: int32_def)


text \<open>
  Line 116 at the shift \<open>s\<close>, after a mismatch at the pattern index \<open>r\<close>, with the int \<open>e\<close>
  read at the lookup: when the byte read lies inside a chunk of length \<open>L < 2^31\<close> and
  \<open>e\<close> is an int that is at least \<open>L - 2^31\<close>, neither the subtraction nor the addition
  wraps around.
\<close>

lemma advance_in_range:
  assumes "0 \<le> s" "0 \<le> r" "s + r < L" "L < 2147483648"
    and "L - 2147483648 \<le> e" "e < 2147483648"
  shows "int32 (s + max 1 (int32 (r - e))) = s + max 1 (r - e)"
    and "s + max 1 (r - e) < 2147483648"
proof -
  have a: "int32 (r - e) = r - e" using assms by (intro int32_id) simp_all
  show b: "s + max 1 (r - e) < 2147483648" using assms by (simp add: max_def)
  have "int32 (s + max 1 (r - e)) = s + max 1 (r - e)"
    using b assms(1) by (intro int32_id) (simp_all add: max_def)
  then show "int32 (s + max 1 (int32 (r - e))) = s + max 1 (r - e)" by (simp add: a)
qed

text \<open>
  The index of a lookup is the byte itself when the byte is below 128, and a number
  from \<open>-128\<close> to \<open>-1\<close> otherwise. With 128 readable ints before the table every
  lookup reads an int: an entry of the table or one of these.
\<close>

lemma char_to_int_cases:
  "(seven_bit c \<and> char_to_int c = int (unsigned_char c) \<and> unsigned_char c < 128)
   \<or> (\<not> seven_bit c \<and> - 128 \<le> char_to_int c \<and> char_to_int c < 0)"
proof -
  define v where "v = (of_char c :: nat)"
  have v: "v < 256" "(of_char c :: int) = int v"
    using unsigned_char_less [of c] by (simp_all add: v_def unsigned_char_def UNIQUE_CHARS_def of_nat_of_char)
  show ?thesis
    unfolding seven_bit_def char_to_int_def unsigned_char_def v(2) v_def [symmetric]
    using v(1) by auto
qed

lemma table_at_readable:
  assumes "length t = UNIQUE_CHARS" "128 \<le> length below"
  shows "\<exists>e. table_at t below (char_to_int c) = Inr e \<and> e \<in> set t \<union> set below"
proof -
  from char_to_int_cases [of c] show ?thesis
  proof
    assume a: "seven_bit c \<and> char_to_int c = int (unsigned_char c) \<and> unsigned_char c < 128"
    then have "table_at t below (char_to_int c) = Inr (t ! unsigned_char c)"
      by (simp add: table_at_def UNIQUE_CHARS_def)
    moreover have "t ! unsigned_char c \<in> set t" using a assms(1) by (simp add: UNIQUE_CHARS_def)
    ultimately show ?thesis by simp
  next
    assume a: "\<not> seven_bit c \<and> - 128 \<le> char_to_int c \<and> char_to_int c < 0"
    define k where "k = nat (- char_to_int c) - 1"
    from a have lo: "- 128 \<le> char_to_int c" and hi: "char_to_int c < 0" by simp_all
    have k: "k < 128" "nat (- char_to_int c) \<le> length below"
      unfolding k_def using lo hi assms(2) by arith+
    have "table_at t below (char_to_int c) = Inr (below ! k)"
      using hi k(2) by (simp add: table_at_def k_def)
    moreover have "below ! k \<in> set below" using k assms(2) by simp
    ultimately show ?thesis by simp
  qed
qed


text \<open>
  On readable memory and with indexes in the range of an int, the inner loop stops at
  the last mismatch of the window, or at \<open>-1\<close> when the window holds the pattern.
\<close>

lemma compare_loop_result:
  assumes "0 \<le> s" "- 1 \<le> j" "j < int (length pat)" "s + j < int (length txt)"
    and "s + j < 2147483648"
  shows "\<exists>r. compare_loop pat txt s j = Inr r \<and> - 1 \<le> r \<and> r \<le> j
           \<and> (\<forall>i. r < i \<and> i \<le> j \<longrightarrow> txt ! nat (s + i) = pat ! nat i)
           \<and> (0 \<le> r \<longrightarrow> txt ! nat (s + r) \<noteq> pat ! nat r)"
  using assms
proof (induction "nat (j + 1)" arbitrary: j)
  case 0
  then have "j = - 1" by simp
  then have "compare_loop pat txt s j = Inr (- 1)" by (subst compare_loop.simps) simp
  then show ?case using \<open>j = - 1\<close> by auto
next
  case (Suc n)
  then have j: "0 \<le> j" by simp
  have dp: "deref pat j = Inr (pat ! nat j)" using j Suc.prems by (simp add: deref_def)
  have "int32 (s + j) = s + j" using j Suc.prems by (intro int32_id) simp_all
  then have dt: "deref txt (int32 (s + j)) = Inr (txt ! nat (s + j))"
    using j Suc.prems by (simp add: deref_def)
  show ?case
  proof (cases "pat ! nat j = txt ! nat (s + j)")
    case False
    then have "compare_loop pat txt s j = Inr j"
      using j dp dt by (subst compare_loop.simps) simp
    then show ?thesis using j False by auto
  next
    case True
    then have step: "compare_loop pat txt s j = compare_loop pat txt s (j - 1)"
      using j dp dt by (subst compare_loop.simps) simp
    have "n = nat (j - 1 + 1)" using Suc.hyps(2) by simp
    from Suc.hyps(1) [OF this] Suc.prems j
    obtain r where r: "compare_loop pat txt s (j - 1) = Inr r" "- 1 \<le> r" "r \<le> j - 1"
      "\<forall>i. r < i \<and> i \<le> j - 1 \<longrightarrow> txt ! nat (s + i) = pat ! nat i"
      "0 \<le> r \<longrightarrow> txt ! nat (s + r) \<noteq> pat ! nat r"
      by auto
    have "txt ! nat (s + i) = pat ! nat i" if "r < i \<and> i \<le> j" for i
    proof (cases "i = j")
      case True
      then show ?thesis using \<open>pat ! nat j = txt ! nat (s + j)\<close> by simp
    next
      case False
      then show ?thesis using r(4) that by simp
    qed
    then show ?thesis using step r by auto
  qed
qed

lemma compare_loop_window:
  assumes "0 \<le> s" "0 \<le> m" "m \<le> int (length pat)" "s + m \<le> int (length txt)"
    and "s + m \<le> 2147483648"
  shows "\<exists>r. compare_loop pat txt s (m - 1) = Inr r \<and> - 1 \<le> r \<and> r < m
           \<and> (r < 0 \<longleftrightarrow> matches_at pat m txt s)
           \<and> (\<forall>i. r < i \<and> i < m \<longrightarrow> txt ! nat (s + i) = pat ! nat i)
           \<and> (0 \<le> r \<longrightarrow> txt ! nat (s + r) \<noteq> pat ! nat r)"
proof -
  from compare_loop_result [of s "m - 1" pat "txt"] assms
  obtain r where r: "compare_loop pat txt s (m - 1) = Inr r" "- 1 \<le> r" "r \<le> m - 1"
      "\<forall>i. r < i \<and> i \<le> m - 1 \<longrightarrow> txt ! nat (s + i) = pat ! nat i"
      "0 \<le> r \<longrightarrow> txt ! nat (s + r) \<noteq> pat ! nat r"
    by auto
  have "r < 0 \<longleftrightarrow> matches_at pat m txt s"
  proof
    assume "r < 0"
    with r(2) have "r = - 1" by simp
    with r(4) show "matches_at pat m txt s" by (auto simp: matches_at_def)
  next
    assume ma: "matches_at pat m txt s"
    show "r < 0"
    proof (rule ccontr)
      assume "\<not> r < 0"
      then have "0 \<le> r" by simp
      with r(5) have "txt ! nat (s + r) \<noteq> pat ! nat r" by simp
      moreover from ma \<open>0 \<le> r\<close> r(3) have "txt ! nat (s + r) = pat ! nat r"
        by (simp add: matches_at_def)
      ultimately show False by simp
    qed
  qed
  with r show ?thesis by auto
qed

text \<open>
  For a byte below 128 the lookup is the one the table was built for, and the shift
  it causes passes over no occurrence (the bad-character rule of Boyer and Moore).
\<close>

lemma seven_bit_lookup:
  assumes "seven_bit c"
  shows "table_at t below (char_to_int c) = Inr (t ! unsigned_char c)"
proof -
  have "(of_char c :: int) = int (of_char c :: nat)" by (simp add: of_nat_of_char)
  with assms have "(of_char c :: int) < 128" "0 \<le> (of_char c :: int)"
    by (simp_all add: seven_bit_def)
  then show ?thesis
    by (simp add: table_at_def char_to_int_def unsigned_char_def UNIQUE_CHARS_def)
qed

lemma bad_character_shift_skips_no_match:
  assumes "table_for pat m t" "0 \<le> r" "r < m" "s < q"
    and "q < s + max 1 (r - t ! unsigned_char (T ! nat (s + r)))" "0 \<le> s"
  shows "\<not> matches_at pat m T q"
proof
  assume ma: "matches_at pat m T q"
  define c where "c = T ! nat (s + r)"
  define i where "i = s + r - q"
  have big: "q < s + (r - t ! unsigned_char c)" using assms(4,5) by (simp add: c_def max_def split: if_splits)
  then have ei: "t ! unsigned_char c < i" by (simp add: i_def)
  have im: "i < m" using assms(3,4) by (simp add: i_def)
  from assms(1) have cases: "((\<forall>i. 0 \<le> i \<and> i < m \<longrightarrow> pat ! nat i \<noteq> c) \<and> t ! unsigned_char c = - 1)
        \<or> (0 \<le> t ! unsigned_char c \<and> t ! unsigned_char c < m \<and> pat ! nat (t ! unsigned_char c) = c
            \<and> (\<forall>i. t ! unsigned_char c < i \<and> i < m \<longrightarrow> pat ! nat i \<noteq> c))"
    by (simp add: table_for_def)
  then have i0: "0 \<le> i" using ei by auto
  have "T ! nat (q + i) = pat ! nat i" using ma i0 im by (simp add: matches_at_def)
  moreover have "q + i = s + r" by (simp add: i_def)
  ultimately have "pat ! nat i = c" by (simp add: c_def)
  with cases i0 im ei show False by auto
qed

text \<open>
  The entries of a table of the builder lie between \<open>-1\<close> and the pattern length, so
  with such an entry a continuing iteration adds between 1 and \<open>patternLength\<close> to the
  shift.
\<close>

lemma table_for_range:
  assumes "table_for pat m t" "0 \<le> m"
  shows "- 1 \<le> t ! unsigned_char c \<and> t ! unsigned_char c < m"
proof -
  from assms(1) have "((\<forall>i. 0 \<le> i \<and> i < m \<longrightarrow> pat ! nat i \<noteq> c) \<and> t ! unsigned_char c = - 1)
        \<or> (0 \<le> t ! unsigned_char c \<and> t ! unsigned_char c < m \<and> pat ! nat (t ! unsigned_char c) = c
            \<and> (\<forall>i. t ! unsigned_char c < i \<and> i < m \<longrightarrow> pat ! nat i \<noteq> c))"
    by (simp add: table_for_def)
  then show ?thesis using assms(2) by auto
qed

lemma advance_at_most_patternLength:
  assumes "table_for pat m t" "0 \<le> r" "r < m"
  shows "1 \<le> max 1 (r - t ! unsigned_char c) \<and> max 1 (r - t ! unsigned_char c) \<le> m"
  using table_for_range [OF assms(1), of c] assms(2,3) by auto


text \<open>
  One iteration of the outer loop, for lengths whose difference is in the range of an
  int: the loop goes through \<open>search_step\<close> while the shift is at most
  \<open>textLength - patternLength\<close> and returns \<open>-1\<close> after that. On a readable window
  \<open>search_step\<close> returns the shift when the window holds the pattern, and otherwise
  performs the lookup for the byte at the last mismatch.
\<close>

lemma search_loop_step:
  assumes "s \<le> textLength a - patternLength a"
    and "- 2147483648 \<le> textLength a - patternLength a" "textLength a - patternLength a < 2147483648"
  shows "search_loop a s =
           (case search_step a s of
              Return result \<Rightarrow> Some result
            | Continue nextShift \<Rightarrow> search_loop a nextShift)"
proof -
  have "int32 (textLength a - patternLength a) = textLength a - patternLength a"
    using assms(2,3) by (rule int32_id)
  then show ?thesis using assms(1) by (subst search_loop.simps) simp
qed

lemma search_loop_end:
  assumes "\<not> s \<le> textLength a - patternLength a"
    and "- 2147483648 \<le> textLength a - patternLength a" "textLength a - patternLength a < 2147483648"
  shows "search_loop a s = Some (Inr (a\<lparr>found_at := - 1\<rparr>))"
proof -
  have "int32 (textLength a - patternLength a) = textLength a - patternLength a"
    using assms(2,3) by (rule int32_id)
  then show ?thesis using assms(1) by (subst search_loop.simps) simp
qed

lemma search_step_window:
  assumes "0 \<le> s" "0 \<le> patternLength a" "patternLength a \<le> int (length (pattern a))"
    and "s + patternLength a \<le> int (length (text' a))" "s + patternLength a \<le> 2147483648"
  shows "(matches_at (pattern a) (patternLength a) (text' a) s
            \<and> search_step a s = Return (Inr (a\<lparr>found_at := s\<rparr>)))
       \<or> (\<not> matches_at (pattern a) (patternLength a) (text' a) s
            \<and> (\<exists>r. 0 \<le> r \<and> r < patternLength a \<and>
                 search_step a s =
                   (case table_at (badCharShiftTable a) (below_table a)
                           (char_to_int (text' a ! nat (s + r))) of
                      Inl f \<Rightarrow> Return (Inl f)
                    | Inr entry \<Rightarrow> Continue (int32 (s + max 1 (int32 (r - entry)))))))"
proof -
  have pl: "int32 (patternLength a - 1) = patternLength a - 1"
    using assms(1,2,5) by (intro int32_id) simp_all
  from compare_loop_window [OF assms(1,2,3,4,5)]
  obtain r where r: "compare_loop (pattern a) (text' a) s (patternLength a - 1) = Inr r"
      "- 1 \<le> r" "r < patternLength a"
      "r < 0 \<longleftrightarrow> matches_at (pattern a) (patternLength a) (text' a) s"
    by blast
  show ?thesis
  proof (cases "r < 0")
    case True
    then have "search_step a s = Return (Inr (a\<lparr>found_at := s\<rparr>))"
      using r(1) by (simp add: search_step_def pl)
    then show ?thesis using True r(4) by simp
  next
    case False
    then have r0: "0 \<le> r" by simp
    have "int32 (s + r) = s + r" using assms(1,5) r0 r(3) by (intro int32_id) simp_all
    then have d: "deref (text' a) (int32 (s + r)) = Inr (text' a ! nat (s + r))"
      using assms(1,4) r0 r(3) by (simp add: deref_def)
    have "search_step a s =
            (case table_at (badCharShiftTable a) (below_table a)
                    (char_to_int (text' a ! nat (s + r))) of
               Inl f \<Rightarrow> Return (Inl f)
             | Inr entry \<Rightarrow> Continue (int32 (s + max 1 (int32 (r - entry)))))"
      using r(1) False d by (simp add: search_step_def pl)
    then show ?thesis using False r0 r(3,4) by blast
  qed
qed









text \<open>
  Claim C7 (fails on the code). \<open>search\<close> indexes the shift table with a plain \<^verbatim>\<open>char\<close>
  (line 116), while \<open>generateBadCharacterShiftTable\<close> casts to \<^verbatim>\<open>unsigned char\<close> (line
  165). On the one-byte chunk \<open>0xE9\<close> and the pattern \<open>a\<close>, with the table built for
  that pattern, the first mismatch looks up index \<open>-23\<close>, outside the 256 entries.
  Here no memory is readable before the table, and the run ends with the fault at
  that index.
\<close>

theorem search_indexes_table_with_signed_char:
  "search \<lparr> text' = [CHR 0xE9], textLength = 1, pattern = ''a'' @ [NUL], patternLength = 1,
            badCharShiftTable = (replicate 256 (- 1))[97 := 0], found_at = - 1,
            below_table = [] \<rparr>
     = Some (Inl (TableIndexOutOfBounds (- 23)))"
  by code_simp

text \<open>
  The table of the run above is the one the builder returns for the pattern \<open>a\<close>.
  When ints are readable before the table, as in the stack array of
  \<open>search_in_file\<close>, the same lookup reads the int at index \<open>-23\<close> and the scan goes on
  with it: with \<open>7\<close> there, line 116 adds \<open>max 1 (0 - 7) = 1\<close> and the scan ends with \<open>-1\<close>.
\<close>

lemma generated_table_of_a:
  "generateBadCharacterShiftTable (''a'' @ [NUL]) 1 (replicate UNIQUE_CHARS 0) = Inr ((replicate 256 (- 1))[97 := 0])"
  by code_simp

lemma search_reads_before_the_table:
  "table_at ((replicate 256 (- 1))[97 := 0]) ((replicate 128 0)[22 := 7]) (char_to_int (CHR 0xE9))
     = Inr 7 \<and>
   search \<lparr> text' = [CHR 0xE9], textLength = 1, pattern = ''a'' @ [NUL], patternLength = 1,
            badCharShiftTable = (replicate 256 (- 1))[97 := 0], found_at = - 1,
            below_table = (replicate 128 0)[22 := 7] \<rparr>
     = Some (Inr \<lparr> text' = [CHR 0xE9], textLength = 1, pattern = ''a'' @ [NUL],
                    patternLength = 1, badCharShiftTable = (replicate 256 (- 1))[97 := 0],
                    found_at = - 1, below_table = (replicate 128 0)[22 := 7] \<rparr>)"
  by code_simp

text \<open>
  Every entry of a table of the builder lies between \<open>-1\<close> and the pattern length.
\<close>

lemma table_for_entries:
  assumes "table_for pat m t" "0 \<le> m" "length t = UNIQUE_CHARS"
  shows "\<forall>e \<in> set t. - 1 \<le> e \<and> e < m"
proof
  fix e assume "e \<in> set t"
  then obtain i where i: "i < length t" "t ! i = e" by (auto simp: in_set_conv_nth)
  then have "unsigned_char (char_of i) = i"
    using assms(3) by (simp add: unsigned_char_def UNIQUE_CHARS_def)
  with table_for_range [OF assms(1,2), of "char_of i"] i(2)
  show "- 1 \<le> e \<and> e < m" by simp
qed

text \<open>
  On a chunk whose bytes up to the end of the first occurrence are below 128, the scan
  with a table of the builder returns the first occurrence. On a chunk without an
  occurrence the scan returns \<open>-1\<close>, whatever the table, when every lookup that its
  bytes cause reads an int that is at least \<open>textLength - 2^31\<close>.
\<close>

lemma search_loop_finds:
  assumes tbl: "table_for (pattern a) (patternLength a) (badCharShiftTable a)"
    and m: "0 \<le> patternLength a" "patternLength a \<le> int (length (pattern a))"
    and q: "q + patternLength a \<le> textLength a" "q + patternLength a \<le> int (length (text' a))"
    and len: "textLength a < 2147483648"
    and occ: "matches_at (pattern a) (patternLength a) (text' a) q"
    and bits: "\<forall>i. 0 \<le> i \<and> i < q + patternLength a \<longrightarrow> seven_bit (text' a ! nat i)"
    and s: "0 \<le> s" "s \<le> q"
    and left: "\<forall>q'. s \<le> q' \<and> q' < q \<longrightarrow> \<not> matches_at (pattern a) (patternLength a) (text' a) q'"
  shows "search_loop a s = Some (Inr (a\<lparr>found_at := q\<rparr>))"
  using s left
proof (induction "nat (q - s)" arbitrary: s rule: less_induct)
  case less
  have lo: "- 2147483648 \<le> textLength a - patternLength a"
    and hi: "textLength a - patternLength a < 2147483648"
    using less.prems(1,2) q(1) m(1) len by simp_all
  have inside: "s \<le> textLength a - patternLength a" using less.prems(2) q(1) by simp
  have fit: "s + patternLength a \<le> int (length (text' a))" using less.prems(2) q(2) by simp
  have fit32: "s + patternLength a \<le> 2147483648" using inside len by simp
  note unfold = search_loop_step [OF inside lo hi]
  note window = search_step_window [OF less.prems(1) m fit fit32]
  show ?case
  proof (cases "s = q")
    case True
    with window occ have "search_step a s = Return (Inr (a\<lparr>found_at := s\<rparr>))" by simp
    then show ?thesis using unfold True by simp
  next
    case False
    then have sq: "s < q" using less.prems by simp
    then have nm: "\<not> matches_at (pattern a) (patternLength a) (text' a) s"
      using less.prems by simp
    with window obtain r where r: "0 \<le> r" "r < patternLength a"
        "search_step a s =
           (case table_at (badCharShiftTable a) (below_table a)
                   (char_to_int (text' a ! nat (s + r))) of
              Inl f \<Rightarrow> Return (Inl f)
            | Inr entry \<Rightarrow> Continue (int32 (s + max 1 (int32 (r - entry)))))"
      by blast
    define c where "c = text' a ! nat (s + r)"
    define e where "e = badCharShiftTable a ! unsigned_char c"
    have "seven_bit c" using bits r less.prems(1) sq by (simp add: c_def)
    then have l: "table_at (badCharShiftTable a) (below_table a) (char_to_int c) = Inr e"
      unfolding e_def by (rule seven_bit_lookup)
    from table_for_range [OF tbl m(1), of c]
    have range: "textLength a - 2147483648 \<le> e" "e < 2147483648"
      using len q(1) less.prems(1,2) by (simp_all add: e_def)
    have fitr: "s + r < textLength a" using r(2) inside by simp
    note adv32 = advance_in_range [OF less.prems(1) r(1) fitr len range]
    define s' where "s' = s + max 1 (r - e)"
    have step: "search_step a s = Continue s'"
      using r(3) l adv32(1) by (simp add: c_def s'_def)
    have adv: "s < s'" by (simp add: s'_def)
    have le: "s' \<le> q"
    proof (rule ccontr)
      assume "\<not> s' \<le> q"
      then have "q < s + max 1 (r - badCharShiftTable a ! unsigned_char (text' a ! nat (s + r)))"
        by (simp add: s'_def e_def c_def)
      from bad_character_shift_skips_no_match [OF tbl r(1,2) sq this less.prems(1)] occ
      show False by simp
    qed
    have "search_loop a s' = Some (Inr (a\<lparr>found_at := q\<rparr>))"
    proof (rule less.hyps)
      show "nat (q - s') < nat (q - s)" using adv sq by simp
      show "0 \<le> s'" using adv less.prems(1) by simp
      show "s' \<le> q" by (rule le)
      show "\<forall>q'. s' \<le> q' \<and> q' < q \<longrightarrow> \<not> matches_at (pattern a) (patternLength a) (text' a) q'"
        using less.prems(3) adv by auto
    qed
    then show ?thesis using unfold step by simp
  qed
qed

lemma search_loop_misses:
  assumes m: "0 \<le> patternLength a" "patternLength a \<le> int (length (pattern a))"
      "patternLength a \<le> 2147483648"
    and len: "0 \<le> textLength a" "textLength a \<le> int (length (text' a))"
      "textLength a < 2147483648"
    and look: "\<forall>i. 0 \<le> i \<and> i < textLength a \<longrightarrow>
                 (\<exists>e. table_at (badCharShiftTable a) (below_table a)
                         (char_to_int (text' a ! nat i)) = Inr e
                      \<and> textLength a - 2147483648 \<le> e \<and> e < 2147483648)"
    and s: "0 \<le> s"
    and none: "\<forall>q. s \<le> q \<and> q \<le> textLength a - patternLength a
                  \<longrightarrow> \<not> matches_at (pattern a) (patternLength a) (text' a) q"
  shows "search_loop a s = Some (Inr (a\<lparr>found_at := - 1\<rparr>))"
  using s none
proof (induction "nat (textLength a - patternLength a - s + 1)" arbitrary: s rule: less_induct)
  case less
  have lo: "- 2147483648 \<le> textLength a - patternLength a"
    and hi: "textLength a - patternLength a < 2147483648"
    using m(1,3) len(1,3) by simp_all
  show ?case
  proof (cases "s \<le> textLength a - patternLength a")
    case False
    then show ?thesis by (rule search_loop_end [OF _ lo hi])
  next
    case True
    note unfold = search_loop_step [OF True lo hi]
    have nm: "\<not> matches_at (pattern a) (patternLength a) (text' a) s"
      using less.prems True by simp
    have fit: "s + patternLength a \<le> int (length (text' a))" using True len(2) by simp
    have fit32: "s + patternLength a \<le> 2147483648" using True len(3) by simp
    from search_step_window [OF less.prems(1) m(1,2) fit fit32] nm
    obtain r where r: "0 \<le> r" "r < patternLength a"
        "search_step a s =
           (case table_at (badCharShiftTable a) (below_table a)
                   (char_to_int (text' a ! nat (s + r))) of
              Inl f \<Rightarrow> Return (Inl f)
            | Inr entry \<Rightarrow> Continue (int32 (s + max 1 (int32 (r - entry)))))"
      by blast
    have fitr: "s + r < textLength a" using r(2) True by simp
    with look less.prems(1) r(1)
    obtain e where e: "table_at (badCharShiftTable a) (below_table a)
                         (char_to_int (text' a ! nat (s + r))) = Inr e"
        "textLength a - 2147483648 \<le> e" "e < 2147483648"
      by (metis add_nonneg_nonneg)
    note adv32 = advance_in_range [OF less.prems(1) r(1) fitr len(3) e(2,3)]
    define s' where "s' = s + max 1 (r - e)"
    have step: "search_step a s = Continue s'"
      using r(3) e(1) adv32(1) by (simp add: s'_def)
    have adv: "s < s'" by (simp add: s'_def)
    have "search_loop a s' = Some (Inr (a\<lparr>found_at := - 1\<rparr>))"
    proof (rule less.hyps)
      show "nat (textLength a - patternLength a - s' + 1) < nat (textLength a - patternLength a - s + 1)"
        using adv True by simp
      show "0 \<le> s'" using adv less.prems(1) by simp
      show "\<forall>q. s' \<le> q \<and> q \<le> textLength a - patternLength a
                  \<longrightarrow> \<not> matches_at (pattern a) (patternLength a) (text' a) q"
        using less.prems(2) adv by auto
    qed
    then show ?thesis using unfold step by simp
  qed
qed

section \<open>Validation, chunks and resources\<close>

lemma takeWhile_shorter: "x \<in> set s \<Longrightarrow> length (takeWhile (\<lambda>c. c \<noteq> x) s) < length s"
  by (induction s) auto

lemma strlen_bounds:
  assumes "strlen s = Inr n"
  shows "0 \<le> n \<and> n < int (length s)"
proof (cases "NUL \<in> set s")
  case True
  then have "n = int (length (takeWhile (\<lambda>c. c \<noteq> NUL) s))"
    using assms by (simp add: strlen_def)
  then show ?thesis using takeWhile_shorter [OF True] by simp
next
  case False
  then show ?thesis using assms by (simp add: strlen_def)
qed



lemma divide_into_chunks_cases:
  assumes "divide_into_chunks n m = (cs, ex, T)" "0 \<le> n"
  shows "0 \<le> ex \<and> ex < 16 \<and> 0 \<le> cs \<and> (T = 1 \<and> cs = n \<or> T = 16 \<and> m \<le> cs \<and> 16 * cs + ex = n)"
proof (cases "n div 16 < m")
  case True
  with assms(1) have "cs = n" "ex = n mod 16" "T = 1"
    by (auto simp add: divide_into_chunks_def MAX_THREADS_def)
  then show ?thesis using assms(2) by simp
next
  case False
  with assms(1) have "cs = n div 16" "ex = n mod 16" "T = 16"
    by (auto simp add: divide_into_chunks_def MAX_THREADS_def)
  then show ?thesis using assms(2) False by simp
qed

text \<open>
  Where the chunks lie: a chunk starts at a non-negative offset; a chunk that is not the
  last one ends inside the buffer; the last chunk starts inside the buffer, and with 16
  threads it ends exactly at the end of the buffer.
\<close>

lemma chunk_offsets:
  assumes dc: "divide_into_chunks n m = (cs, ex, T)" and n: "0 \<le> n" and k: "0 \<le> k" "k < T"
  shows "0 \<le> k * cs"
    and "k \<noteq> T - 1 \<Longrightarrow> k * cs + cs \<le> n"
    and "k = T - 1 \<Longrightarrow> k * cs \<le> n \<and> n - k * cs \<le> cs + ex"
    and "k = T - 1 \<Longrightarrow> T = 16 \<Longrightarrow> k * cs + (cs + ex) = n"
proof -
  from divide_into_chunks_cases [OF dc n]
  have c: "0 \<le> ex" "0 \<le> cs" "T = 1 \<and> cs = n \<or> T = 16 \<and> m \<le> cs \<and> 16 * cs + ex = n"
    by auto
  show "0 \<le> k * cs" using k c(2) by simp
  show "k * cs + cs \<le> n" if "k \<noteq> T - 1"
  proof -
    from c(3) that k have T: "T = 16" "16 * cs + ex = n" "k + 1 \<le> 15" by auto
    have "(k + 1) * cs \<le> 15 * cs" using T(3) c(2) by (rule mult_right_mono)
    then show ?thesis using T(2) c(1,2) by (simp add: algebra_simps)
  qed
  show "k * cs \<le> n \<and> n - k * cs \<le> cs + ex" if "k = T - 1"
    using c that by auto
  show "k * cs + (cs + ex) = n" if "k = T - 1" "T = 16"
    using c that by auto
qed

text \<open>
  The number of threads is 16 unless \<open>n div 16 < m\<close>, and then 1. With 16 threads the
  chunk \<open>k\<close> starts at \<open>k * (n div 16)\<close>, every chunk but the last has \<open>n div 16\<close> bytes and
  the last one ends at \<open>n\<close>.
\<close>

lemma worker_count:
  "snd (snd (divide_into_chunks n m)) = (if n div 16 < m then 1 else 16)"
  by (simp add: divide_into_chunks_def MAX_THREADS_def)

lemma sixteen_chunks_partition:
  assumes "divide_into_chunks n m = (cs, ex, 16)" "0 \<le> n"
  shows "cs = n div 16"
    and "\<forall>k. 0 \<le> k \<and> k < 15 \<longrightarrow>
           k * cs + textLength (fill_searchArgs V P m t (cs, ex, 16) k) = (k + 1) * cs"
    and "15 * cs + textLength (fill_searchArgs V P m t (cs, ex, 16) 15) = n"
proof -
  from divide_into_chunks_cases [OF assms] have c: "16 * cs + ex = n" "0 \<le> ex" "ex < 16"
    by auto
  show "cs = n div 16"
    using assms(1) by (cases "n div 16 < m") (auto simp add: divide_into_chunks_def MAX_THREADS_def)
  show "\<forall>k. 0 \<le> k \<and> k < 15 \<longrightarrow>
           k * cs + textLength (fill_searchArgs V P m t (cs, ex, 16) k) = (k + 1) * cs"
    by (simp add: fill_searchArgs_def algebra_simps)
  show "15 * cs + textLength (fill_searchArgs V P m t (cs, ex, 16) 15) = n"
    using c(1) by (simp add: fill_searchArgs_def)
qed

text \<open>
  Claim C4 (fails on the code). When \<^verbatim>\<open>chunkSize < patternLength\<close> the code falls back to
  one thread and sets \<^verbatim>\<open>chunkSize = textLength\<close>, but \<^verbatim>\<open>extra\<close> keeps the remainder of
  the division by 16. The only chunk is the last one, so its length is
  \<^verbatim>\<open>textLength + textLength % 16\<close>: for a buffer of 3 bytes and a pattern of 1 byte the
  chunk has length 6, not 3.
\<close>

theorem single_thread_chunk_overshoots:
  "divide_into_chunks 3 1 = (3, 3, 1) \<and>
   textLength (fill_searchArgs (''abc'' @ [NUL]) (''a'' @ [NUL]) 1 ((replicate 256 (- 1))[97 := 0])
                 (divide_into_chunks 3 1) 0) = 6"
  by code_simp

text \<open>
  Claim C10 (fails on the code). The buffer length is \<^verbatim>\<open>strlen\<close> of the view, but in the
  one-thread case the chunk is longer than the buffer (see C4) and the scan goes on
  beyond the NUL byte: in the view \<open>ab\<close>, NUL, \<open>x\<close> the pattern \<open>x\<close> is found at offset 3.
\<close>

theorem occurrence_after_NUL_is_found:
  "strlen (''ab'' @ [NUL] @ ''x'') = Inr 2 \<and>
   search_in_file (all_succeed (''ab'' @ [NUL] @ ''x'')) ''textfile.txt'' (''x'' @ [NUL]) =
     Some (Found 0 3,
       [Call_CreateFile, Call_CreateFileMapping, Call_MapViewOfFile,
        Call_generateBadCharacterShiftTable, Call_beginthreadex 0,
        Call_WaitForSingleObject (Thread 0), Call_CloseHandle (Thread 0),
        Call_printf ''Found '%s'\<newline>Time taken: %.6f seconds\<newline>''
          [Arg_string ''x'', Arg_seconds]])"
  by code_simp

text \<open>
  Claim C9 (fails on the code). The \<^verbatim>\<open>return\<close> after "Found" (line 327) and the three
  \<^verbatim>\<open>return\<close>s of the validation (lines 234, 239 and 244) release nothing: the runs below
  end without \<^verbatim>\<open>UnmapViewOfFile\<close> and without \<^verbatim>\<open>CloseHandle\<close> of the mapping and the file,
  which the "not found" path and the thread-creation failure path do call.
\<close>

theorem found_and_rejected_runs_release_nothing:
  "search_in_file (all_succeed (''abc'' @ [NUL])) ''textfile.txt'' (''bc'' @ [NUL]) =
     Some (Found 0 1,
       [Call_CreateFile, Call_CreateFileMapping, Call_MapViewOfFile,
        Call_generateBadCharacterShiftTable, Call_beginthreadex 0,
        Call_WaitForSingleObject (Thread 0), Call_CloseHandle (Thread 0),
        Call_printf ''Found '%s'\<newline>Time taken: %.6f seconds\<newline>''
          [Arg_string ''bc'', Arg_seconds]]) \<and>
   search_in_file (all_succeed (''abc'' @ [NUL])) ''textfile.txt'' [NUL] =
     Some (Pattern_is_empty,
       [Call_CreateFile, Call_CreateFileMapping, Call_MapViewOfFile,
        Call_printf ''Pattern is empty, nothing to search for.\<newline>'' []])"
  by code_simp

section \<open>The waiting loop\<close>

lemma joined_step: "i \<le> k \<Longrightarrow> joined i k = [Call_WaitForSingleObject (Thread i), Call_CloseHandle (Thread i)] @ joined (i + 1) k"
  by (simp add: joined_def upto_rec1)

lemma joined_empty: "k < i \<Longrightarrow> joined i k = []"
  by (simp add: joined_def)

lemma join_threads_found:
  assumes "threadIndex \<le> k" "k < numThreads"
    and "\<forall>i. threadIndex \<le> i \<and> i < k \<longrightarrow>
           (\<exists>a. search (searchArgs ! nat i) = Some (Inr a) \<and> found_at a < 0)"
    and "search (searchArgs ! nat k) = Some (Inr finished)" "found_at finished \<ge> 0"
  shows "join_threads substring searchArgs numThreads threadIndex tr =
           Some (Found k (found_at finished),
                 tr @ joined threadIndex k
                  @ [Call_printf ''Found '%s'\<newline>Time taken: %.6f seconds\<newline>''
                       [Arg_string (c_string substring), Arg_seconds]])"
  using assms(1,3)
proof (induction "nat (k - threadIndex)" arbitrary: threadIndex tr)
  case 0
  then have "threadIndex = k" by simp
  then show ?case
    using assms(2,4,5) by (subst join_threads.simps) (simp add: joined_step joined_empty)
next
  case (Suc n)
  then have lt: "threadIndex < k" by simp
  with Suc.prems(2) obtain a where a: "search (searchArgs ! nat threadIndex) = Some (Inr a)"
      "found_at a < 0" by blast
  have "join_threads substring searchArgs numThreads threadIndex tr =
        join_threads substring searchArgs numThreads (threadIndex + 1)
          (tr @ [Call_WaitForSingleObject (Thread threadIndex), Call_CloseHandle (Thread threadIndex)])"
    using lt assms(2) a by (subst join_threads.simps) simp
  also have "\<dots> = Some (Found k (found_at finished),
                 (tr @ [Call_WaitForSingleObject (Thread threadIndex), Call_CloseHandle (Thread threadIndex)])
                  @ joined (threadIndex + 1) k
                  @ [Call_printf ''Found '%s'\<newline>Time taken: %.6f seconds\<newline>''
                       [Arg_string (c_string substring), Arg_seconds]])"
    using Suc.hyps(2) Suc.prems lt by (intro Suc.hyps(1)) auto
  finally show ?case using lt by (simp add: joined_step)
qed






section \<open>The whole search\<close>

lemma all_upto: "list_all Q [a..b] \<Longrightarrow> \<forall>i. a \<le> i \<and> i \<le> b \<longrightarrow> Q i"
  by (simp add: list_all_iff)

lemma matches_at_code [code]:
  "matches_at pat m txt' q = list_all (\<lambda>j. txt' ! nat (q + j) = pat ! nat j) [0..m - 1]"
  by (auto simp: matches_at_def list_all_iff)

lemma create_threads_all:
  assumes "\<forall>i. thread_created env i"
  shows "create_threads env numThreads threadIndex tr =
           (True, tr @ map Call_beginthreadex [threadIndex..numThreads - 1])"
proof (induction "nat (numThreads - threadIndex)" arbitrary: threadIndex tr)
  case 0
  then have "\<not> threadIndex < numThreads" by simp
  then show ?case by (subst create_threads.simps) simp
next
  case (Suc n)
  then have lt: "threadIndex < numThreads" by simp
  have "create_threads env numThreads threadIndex tr =
        create_threads env numThreads (threadIndex + 1) (tr @ [Call_beginthreadex threadIndex])"
    using lt assms by (subst create_threads.simps) simp
  also have "\<dots> = (True, (tr @ [Call_beginthreadex threadIndex])
                       @ map Call_beginthreadex [threadIndex + 1..numThreads - 1])"
    using Suc.hyps(2) by (intro Suc.hyps(1)) simp
  finally show ?case using lt by (simp add: upto_rec1 [of threadIndex])
qed

lemma matches_at_drop:
  assumes "0 \<le> off" "0 \<le> q" "off \<le> int (length V)"
  shows "matches_at P m (drop (nat off) V) q = matches_at P m V (off + q)"
proof -
  have "drop (nat off) V ! nat (q + j) = V ! nat (off + q + j)" if "0 \<le> j" for j
  proof -
    have "nat off + nat (q + j) = nat (off + q + j)" using assms that by simp
    moreover have "nat off \<le> length V" using assms by simp
    ultimately show ?thesis by (simp add: nth_drop)
  qed
  then show ?thesis by (simp add: matches_at_def)
qed

lemma nth_thread_arguments:
  assumes "0 \<le> k" "k < T"
  shows "map f [0..T - 1] ! nat k = f k"
proof -
  have "nat k < length [0..T - 1]" using assms by simp
  moreover have "[0..T - 1] ! nat k = k" using assms by simp
  ultimately show ?thesis by simp
qed


text \<open>
  Before the table of every element of the stack array lie 128 ints: the pattern
  length, ints that the model leaves open, and for the elements after the first one
  entries of the table.
\<close>

lemma length_before_the_table:
  assumes "length table = UNIQUE_CHARS"
  shows "length (before_the_table env table m k) = 128"
  using assms
  by (cases "target env")
     (simp_all add: before_the_table_def ints_before_table_def UNIQUE_CHARS_def)

lemma before_the_table_range:
  assumes "\<forall>e \<in> set table. lo \<le> e \<and> e < hi" "lo \<le> m \<and> m < hi"
    and "\<forall>t i. lo \<le> stack_int env t i \<and> stack_int env t i < hi"
  shows "\<forall>e \<in> set (before_the_table env table m k). lo \<le> e \<and> e < hi"
  using assms by (auto simp: before_the_table_def dest: in_set_dropD)

text \<open>
  Every lookup that the bytes of the buffer can cause reads an int between
  \<open>n - 2^31\<close> and \<open>2^31\<close>, where \<open>n\<close> is the length of the buffer: for a byte below 128 it
  reads the entry of the byte, which is between \<open>-1\<close> and the pattern length; for a
  byte from 128 on it reads one of the 128 ints before the table.
\<close>

lemma lookups_in_range:
  assumes tbl: "table_for P m table" "length table = UNIQUE_CHARS"
    and m: "0 \<le> m" "m \<le> n" and n: "n < 2147483648"
    and mem: "(\<forall>i. 0 \<le> i \<and> i < n \<longrightarrow> seven_bit (V ! nat i))
            \<or> (\<forall>t i. n - 2147483648 \<le> stack_int env t i \<and> stack_int env t i < 2147483648)"
  shows "\<forall>i. 0 \<le> i \<and> i < n \<longrightarrow>
           (\<exists>e. table_at table (before_the_table env table m k) (char_to_int (V ! nat i)) = Inr e
                \<and> n - 2147483648 \<le> e \<and> e < 2147483648)"
proof (intro allI impI)
  fix i assume i: "0 \<le> i \<and> i < n"
  let ?below = "before_the_table env table m k"
  from table_for_entries [OF tbl(1) m(1) tbl(2)]
  have entries: "\<forall>e \<in> set table. n - 2147483648 \<le> e \<and> e < 2147483648"
    using m(2) n by auto
  from mem show "\<exists>e. table_at table ?below (char_to_int (V ! nat i)) = Inr e
                \<and> n - 2147483648 \<le> e \<and> e < 2147483648"
  proof
    assume "\<forall>i. 0 \<le> i \<and> i < n \<longrightarrow> seven_bit (V ! nat i)"
    with i have sb: "seven_bit (V ! nat i)" by simp
    have "table ! unsigned_char (V ! nat i) \<in> set table"
      using unsigned_char_less [of "V ! nat i"] tbl(2) by simp
    with entries seven_bit_lookup [OF sb, of table ?below] show ?thesis by simp
  next
    assume st: "\<forall>t i. n - 2147483648 \<le> stack_int env t i \<and> stack_int env t i < 2147483648"
    have "n - 2147483648 \<le> m \<and> m < 2147483648" using m n by simp
    from before_the_table_range [OF entries this st]
    have below: "\<forall>e \<in> set ?below. n - 2147483648 \<le> e \<and> e < 2147483648" .
    have "128 \<le> length ?below" using length_before_the_table [OF tbl(2)] by simp
    from table_at_readable [OF tbl(2) this, of "V ! nat i"] entries below
    show ?thesis by auto
  qed
qed

text \<open>
  The thread of the chunk \<open>k\<close>: it reports the first occurrence inside its chunk when the
  bytes of the buffer are below 128, and \<open>-1\<close> when no occurrence lies inside its chunk
  and its lookups read ints in range.
\<close>

lemma thread_finds:
  assumes dc: "divide_into_chunks n m = (cs, ex, T)"
    and n: "0 \<le> n" "n < int (length V)" "n < 2147483632"
    and m: "0 \<le> m" "m \<le> int (length P)"
    and tbl: "table_for P m table"
    and bits: "\<forall>i. 0 \<le> i \<and> i < n \<longrightarrow> seven_bit (V ! nat i)"
    and k: "0 \<le> k" "k < T" "0 \<le> q" "q + m \<le> (if k = T - 1 then n - k * cs else cs)"
    and occ: "matches_at P m V (k * cs + q)"
    and left: "\<forall>q'. 0 \<le> q' \<and> q' < q \<longrightarrow> \<not> matches_at P m V (k * cs + q')"
  shows "\<exists>finished. search (searchArgs_element env V P m table (cs, ex, T) k) = Some (Inr finished)
           \<and> found_at finished = q"
proof -
  define off where "off = k * cs"
  define a where "a = searchArgs_element env V P m table (cs, ex, T) k"
  have a: "text' a = drop (nat off) V" "pattern a = P" "patternLength a = m"
    "badCharShiftTable a = table"
    "textLength a = (if k = T - 1 then cs + ex else cs)"
    by (simp_all add: a_def searchArgs_element_def fill_searchArgs_def off_def)
  note co = chunk_offsets [OF dc n(1) k(1,2), folded off_def]
  from divide_into_chunks_cases [OF dc n(1)]
  have sizes: "ex < 16" "cs \<le> n" by auto
  have off0: "0 \<le> off" by (rule co(1))
  have fit: "off + q + m \<le> n" using k(4) co(2,3) by (auto simp: off_def split: if_splits)
  have offV: "off \<le> int (length V)" using fit k(3) m(1) n(2) by simp
  have inL: "q + m \<le> textLength a"
    using k(4) co(3) by (auto simp: a off_def split: if_splits)
  have inT: "q + m \<le> int (length (text' a))"
    using fit n(2) off0 by (simp add: a)
  have len32: "textLength a < 2147483648" using sizes n(3) by (simp add: a(5))
  have ma: "matches_at P m (text' a) q' = matches_at P m V (off + q')" if "0 \<le> q'" for q'
    unfolding a by (rule matches_at_drop [OF off0 that offV])
  have b: "\<forall>i. 0 \<le> i \<and> i < q + patternLength a \<longrightarrow> seven_bit (text' a ! nat i)"
  proof (intro allI impI)
    fix i assume i: "0 \<le> i \<and> i < q + patternLength a"
    have "nat off + nat i = nat (off + i)" using off0 i by (simp add: nat_add_distrib)
    moreover have "nat off \<le> length V" using offV off0 by simp
    ultimately have "text' a ! nat i = V ! nat (off + i)" by (simp add: a nth_drop)
    moreover have "seven_bit (V ! nat (off + i))" using bits i fit off0 by (simp add: a)
    ultimately show "seven_bit (text' a ! nat i)" by simp
  qed
  have "search_loop a 0 = Some (Inr (a\<lparr>found_at := q\<rparr>))"
  proof (rule search_loop_finds [where q = q])
    show "table_for (pattern a) (patternLength a) (badCharShiftTable a)" using tbl by (simp add: a)
    show "0 \<le> patternLength a" "patternLength a \<le> int (length (pattern a))"
      using m by (simp_all add: a)
    show "q + patternLength a \<le> textLength a" using inL by (simp add: a)
    show "q + patternLength a \<le> int (length (text' a))" using inT by (simp add: a(3))
    show "textLength a < 2147483648" by (rule len32)
    show "matches_at (pattern a) (patternLength a) (text' a) q"
      using occ ma [OF k(3)] by (simp add: a(2,3) off_def)
    show "\<forall>i. 0 \<le> i \<and> i < q + patternLength a \<longrightarrow> seven_bit (text' a ! nat i)" by (rule b)
    show "(0::int) \<le> 0" by simp
    show "0 \<le> q" by (rule k(3))
    show "\<forall>q'. 0 \<le> q' \<and> q' < q \<longrightarrow> \<not> matches_at (pattern a) (patternLength a) (text' a) q'"
      using left ma by (simp add: a(2,3) off_def)
  qed
  then show ?thesis by (simp add: search_def a_def)
qed

lemma thread_misses:
  assumes n: "0 \<le> n" "n < int (length V)" "n < 2147483648"
    and m: "0 \<le> m" "m \<le> int (length P)" "m \<le> 2147483648"
    and look: "\<forall>i. 0 \<le> i \<and> i < n \<longrightarrow>
           (\<exists>e. table_at table (before_the_table env table m k) (char_to_int (V ! nat i)) = Inr e
                \<and> n - 2147483648 \<le> e \<and> e < 2147483648)"
    and k: "0 \<le> k * cs" "0 \<le> (if k = T - 1 then cs + ex else cs)"
      "k * cs + (if k = T - 1 then cs + ex else cs) \<le> n"
    and none: "\<forall>q'. 0 \<le> q' \<and> q' + m \<le> (if k = T - 1 then cs + ex else cs)
                 \<longrightarrow> \<not> matches_at P m V (k * cs + q')"
  shows "\<exists>finished. search (searchArgs_element env V P m table (cs, ex, T) k) = Some (Inr finished)
           \<and> found_at finished = - 1"
proof -
  define off where "off = k * cs"
  define a where "a = searchArgs_element env V P m table (cs, ex, T) k"
  have a: "text' a = drop (nat off) V" "pattern a = P" "patternLength a = m"
    "badCharShiftTable a = table"
    "textLength a = (if k = T - 1 then cs + ex else cs)"
    "below_table a = before_the_table env table m k"
    by (simp_all add: a_def searchArgs_element_def fill_searchArgs_def off_def)
  have off0: "0 \<le> off" using k(1) by (simp add: off_def)
  have tl0: "0 \<le> textLength a" using k(2) by (simp add: a(5))
  have fit: "off + textLength a \<le> n" using k(3) by (simp add: a(5) off_def)
  have offV: "off \<le> int (length V)" using fit tl0 n(2) by simp
  have ma: "matches_at P m (text' a) q' = matches_at P m V (off + q')" if "0 \<le> q'" for q'
    unfolding a by (rule matches_at_drop [OF off0 that offV])
  have l: "\<forall>i. 0 \<le> i \<and> i < textLength a \<longrightarrow>
                 (\<exists>e. table_at (badCharShiftTable a) (below_table a)
                         (char_to_int (text' a ! nat i)) = Inr e
                      \<and> textLength a - 2147483648 \<le> e \<and> e < 2147483648)"
  proof (intro allI impI)
    fix i assume i: "0 \<le> i \<and> i < textLength a"
    have "nat off + nat i = nat (off + i)" using off0 i by (simp add: nat_add_distrib)
    moreover have "nat off \<le> length V" using offV off0 by simp
    ultimately have byte: "text' a ! nat i = V ! nat (off + i)" by (simp add: a(1) nth_drop)
    have "0 \<le> off + i \<and> off + i < n" using i fit off0 by simp
    with look obtain e where
        "table_at table (before_the_table env table m k) (char_to_int (V ! nat (off + i))) = Inr e"
        "n - 2147483648 \<le> e" "e < 2147483648"
      by blast
    moreover have "textLength a \<le> n" using fit off0 by simp
    ultimately show "\<exists>e. table_at (badCharShiftTable a) (below_table a)
                         (char_to_int (text' a ! nat i)) = Inr e
                      \<and> textLength a - 2147483648 \<le> e \<and> e < 2147483648"
      unfolding byte a(4,6) by (intro exI [of _ e]) simp
  qed
  have "search_loop a 0 = Some (Inr (a\<lparr>found_at := - 1\<rparr>))"
  proof (rule search_loop_misses)
    show "0 \<le> patternLength a" "patternLength a \<le> int (length (pattern a))"
      "patternLength a \<le> 2147483648"
      using m by (simp_all add: a)
    show "0 \<le> textLength a" by (rule tl0)
    show "textLength a \<le> int (length (text' a))"
      using fit n(2) off0 by (simp add: a(1))
    show "textLength a < 2147483648" using fit off0 n(3) by simp
    show "\<forall>i. 0 \<le> i \<and> i < textLength a \<longrightarrow>
                 (\<exists>e. table_at (badCharShiftTable a) (below_table a)
                         (char_to_int (text' a ! nat i)) = Inr e
                      \<and> textLength a - 2147483648 \<le> e \<and> e < 2147483648)"
      by (rule l)
    show "(0::int) \<le> 0" by simp
    show "\<forall>q. 0 \<le> q \<and> q \<le> textLength a - patternLength a
              \<longrightarrow> \<not> matches_at (pattern a) (patternLength a) (text' a) q"
      using none ma by (simp add: a(2,3,5) off_def)
  qed
  then show ?thesis by (simp add: search_def a_def)
qed

text \<open>
  For a valid pattern and buffer the coordinator builds the table, starts all threads
  and enters the waiting loop (line 315).
\<close>

lemma search_in_file_reaches_join:
  assumes env: "CreateFile_result env = None" "CreateFileMapping_result env = None"
      "MapViewOfFile_result env = Inr V" "\<forall>i. thread_created env i"
    and lens: "strlen V = Inr n" "strlen P = Inr m" "1 \<le> m" "m \<le> n"
    and dc: "divide_into_chunks n m = (cs, ex, T)"
  shows "\<exists>table. table_for P m table \<and> length table = UNIQUE_CHARS \<and>
     search_in_file env file_name P =
       join_threads P (map (searchArgs_element env V P m table (cs, ex, T)) [0..T - 1]) T 0
         ([Call_CreateFile, Call_CreateFileMapping, Call_MapViewOfFile,
           Call_generateBadCharacterShiftTable] @ map Call_beginthreadex [0..T - 1])"
proof -
  have mP: "m \<le> int (length P)" using strlen_bounds [OF lens(2)] by simp
  have "length (replicate UNIQUE_CHARS (0::int)) = UNIQUE_CHARS" by simp
  from generated_table_for [OF _ mP this] lens(3)
  obtain table where t: "generateBadCharacterShiftTable P m (replicate UNIQUE_CHARS 0) = Inr table"
      "length table = UNIQUE_CHARS" "table_for P m table" by auto
  have "run_search env V P n m [Call_CreateFile, Call_CreateFileMapping, Call_MapViewOfFile] =
        join_threads P (map (searchArgs_element env V P m table (cs, ex, T)) [0..T - 1]) T 0
         ([Call_CreateFile, Call_CreateFileMapping, Call_MapViewOfFile,
           Call_generateBadCharacterShiftTable] @ map Call_beginthreadex [0..T - 1])"
    by (simp add: run_search_def t(1) dc create_threads_all [OF env(4)])
  moreover have "search_in_file env file_name P =
        run_search env V P n m [Call_CreateFile, Call_CreateFileMapping, Call_MapViewOfFile]"
    using lens(3,4) by (simp add: search_in_file_def env(1,2,3) lens(1,2))
  ultimately show ?thesis using t(2,3) by auto
qed

text \<open>
  What holds of claim C1 on the code. Let every byte of the buffer be below 128 and
  let the pattern stand at offset \<open>q\<close> of the chunk \<open>k\<close>, inside it, with no occurrence
  inside a chunk further left in the buffer. Then the run ends at the \<^verbatim>\<open>return\<close> of line
  327 with \<^verbatim>\<open>threadIndex = k\<close> and \<^verbatim>\<open>found_at = q\<close>. (The chunk \<open>k\<close> starts at
  \<open>k * chunkSize\<close>; the last chunk is taken to end at the end of the buffer.)
\<close>

lemma search_in_file_finds_leftmost:
  assumes env: "CreateFile_result env = None" "CreateFileMapping_result env = None"
      "MapViewOfFile_result env = Inr V" "\<forall>i. thread_created env i"
    and lens: "strlen V = Inr n" "strlen P = Inr m" "1 \<le> m" "m \<le> n"
    and n32: "n < 2147483632"
    and dc: "divide_into_chunks n m = (cs, ex, T)"
    and bits: "\<forall>i. 0 \<le> i \<and> i < n \<longrightarrow> seven_bit (V ! nat i)"
    and k: "0 \<le> k" "k < T" "0 \<le> q" "q + m \<le> (if k = T - 1 then n - k * cs else cs)"
    and occ: "matches_at P m V (k * cs + q)"
    and left: "\<forall>k' q'. 0 \<le> k' \<and> k' < T \<and> 0 \<le> q'
                 \<and> q' + m \<le> (if k' = T - 1 then n - k' * cs else cs)
                 \<and> k' * cs + q' < k * cs + q
               \<longrightarrow> \<not> matches_at P m V (k' * cs + q')"
  shows "search_in_file env file_name P =
           Some (Found k q,
             [Call_CreateFile, Call_CreateFileMapping, Call_MapViewOfFile,
              Call_generateBadCharacterShiftTable] @ map Call_beginthreadex [0..T - 1]
             @ joined 0 k
             @ [Call_printf ''Found '%s'\<newline>Time taken: %.6f seconds\<newline>''
                  [Arg_string (c_string P), Arg_seconds]])"
proof -
  from search_in_file_reaches_join [OF env lens dc]
  obtain table where tbl: "table_for P m table" and tlen: "length table = UNIQUE_CHARS"
    and run: "search_in_file env file_name P =
       join_threads P (map (searchArgs_element env V P m table (cs, ex, T)) [0..T - 1]) T 0
         ([Call_CreateFile, Call_CreateFileMapping, Call_MapViewOfFile,
           Call_generateBadCharacterShiftTable] @ map Call_beginthreadex [0..T - 1])"
    by blast
  let ?A = "map (searchArgs_element env V P m table (cs, ex, T)) [0..T - 1]"
  have n: "0 \<le> n" "n < int (length V)" using strlen_bounds [OF lens(1)] by simp_all
  have n31: "n < 2147483648" using n32 by simp
  have m: "0 \<le> m" "m \<le> int (length P)" using strlen_bounds [OF lens(2)] by simp_all
  have m31: "m \<le> 2147483648" using lens(4) n32 by simp
  have cs0: "0 \<le> cs" using divide_into_chunks_cases [OF dc n(1)] by simp
  have lk: "\<forall>q'. 0 \<le> q' \<and> q' < q \<longrightarrow> \<not> matches_at P m V (k * cs + q')"
    using left k by auto
  have argk: "?A ! nat k = searchArgs_element env V P m table (cs, ex, T) k"
    by (rule nth_thread_arguments [OF k(1,2)])
  from thread_finds [OF dc n n32 m tbl bits k occ lk, of env]
  obtain finished where fin: "search (?A ! nat k) = Some (Inr finished)" "found_at finished = q"
    unfolding argk by blast
  have before: "\<forall>i. 0 \<le> i \<and> i < k \<longrightarrow>
           (\<exists>a. search (?A ! nat i) = Some (Inr a) \<and> found_at a < 0)"
  proof (intro allI impI)
    fix i assume i: "0 \<le> i \<and> i < k"
    then have iT: "0 \<le> i" "i < T" "i \<noteq> T - 1" using k(2) by auto
    note co = chunk_offsets [OF dc n(1) iT(1,2)]
    have "(i + 1) * cs \<le> k * cs" using i cs0 by (intro mult_right_mono) auto
    then have up: "i * cs + cs \<le> k * cs" by (simp add: algebra_simps)
    have none: "\<forall>q'. 0 \<le> q' \<and> q' + m \<le> (if i = T - 1 then cs + ex else cs)
                 \<longrightarrow> \<not> matches_at P m V (i * cs + q')"
    proof (intro allI impI)
      fix q' assume q': "0 \<le> q' \<and> q' + m \<le> (if i = T - 1 then cs + ex else cs)"
      then have "q' + m \<le> cs" using iT(3) by simp
      then have "i * cs + q' < k * cs + q" using up lens(3) k(3) by simp
      with left iT q' show "\<not> matches_at P m V (i * cs + q')" by auto
    qed
    have l0: "0 \<le> (if i = T - 1 then cs + ex else cs)" using cs0 iT(3) by simp
    have li: "i * cs + (if i = T - 1 then cs + ex else cs) \<le> n" using co(2) iT(3) by simp
    have look: "\<forall>j. 0 \<le> j \<and> j < n \<longrightarrow>
           (\<exists>e. table_at table (before_the_table env table m i) (char_to_int (V ! nat j)) = Inr e
                \<and> n - 2147483648 \<le> e \<and> e < 2147483648)"
      by (rule lookups_in_range [OF tbl tlen m(1) lens(4) n31]) (simp add: bits)
    have argi: "?A ! nat i = searchArgs_element env V P m table (cs, ex, T) i"
      by (rule nth_thread_arguments [OF iT(1,2)])
    from thread_misses [OF n n31 m m31 look co(1) l0 li none]
    show "\<exists>a. search (?A ! nat i) = Some (Inr a) \<and> found_at a < 0"
      unfolding argi by auto
  qed
  have q0: "found_at finished \<ge> 0" using fin(2) k(3) by simp
  from join_threads_found [OF k(1,2) before fin(1) q0] run fin(2)
  show ?thesis by simp
qed

text \<open>
  An instance: 32 bytes, so 16 chunks of 2 bytes. The pattern \<open>ab\<close> stands at offset 3,
  across the boundary between the chunks 1 and 2, and at offset 6, inside the chunk 3;
  the run stops at the thread 3 with \<^verbatim>\<open>found_at = 0\<close>.
\<close>

lemma search_in_file_finds_leftmost_example:
  "search_in_file (all_succeed (''xxxabxabxxxxxxxxxxxxxxxxxxxxxxxx'' @ [NUL])) ''textfile.txt''
      (''ab'' @ [NUL]) =
     Some (Found 3 0,
       [Call_CreateFile, Call_CreateFileMapping, Call_MapViewOfFile,
        Call_generateBadCharacterShiftTable] @ map Call_beginthreadex [0..16 - 1]
       @ joined 0 3
       @ [Call_printf ''Found '%s'\<newline>Time taken: %.6f seconds\<newline>''
            [Arg_string (c_string (''ab'' @ [NUL])), Arg_seconds]])"
proof -
  let ?V = "''xxxabxabxxxxxxxxxxxxxxxxxxxxxxxx'' @ [NUL]"
  let ?P = "''ab'' @ [NUL]"
  have env: "CreateFile_result (all_succeed ?V) = None"
    "CreateFileMapping_result (all_succeed ?V) = None"
    "MapViewOfFile_result (all_succeed ?V) = Inr ?V"
    "\<forall>i. thread_created (all_succeed ?V) i"
    by (simp_all add: all_succeed_def)
  have lens: "strlen ?V = Inr 32" "strlen ?P = Inr 2" "(1::int) \<le> 2" "(2::int) \<le> 32"
    by code_simp+
  have n32: "(32::int) < 2147483632" by simp
  have dc: "divide_into_chunks 32 2 = (2, 0, 16)" by code_simp
  have "list_all (\<lambda>i. seven_bit (?V ! nat i)) [0..31]" by code_simp
  from all_upto [OF this]
  have bits: "\<forall>i. 0 \<le> i \<and> i < 32 \<longrightarrow> seven_bit (?V ! nat i)" by simp
  have k: "(0::int) \<le> 3" "(3::int) < 16" "(0::int) \<le> 0"
    "0 + 2 \<le> (if (3::int) = 16 - 1 then 32 - 3 * 2 else (2::int))" by simp_all
  have occ: "matches_at ?P 2 ?V (3 * 2 + 0)" by code_simp
  have "list_all (\<lambda>k. \<not> matches_at ?P 2 ?V (k * 2 + 0)) [0..2]" by code_simp
  from all_upto [OF this]
  have earlier: "\<forall>k. 0 \<le> k \<and> k \<le> 2 \<longrightarrow> \<not> matches_at ?P 2 ?V (k * 2 + 0)" .
  have left: "\<forall>k' q'. 0 \<le> k' \<and> k' < 16 \<and> 0 \<le> q'
                 \<and> q' + 2 \<le> (if k' = 16 - 1 then 32 - k' * 2 else 2)
                 \<and> k' * 2 + q' < 3 * 2 + 0
               \<longrightarrow> \<not> matches_at ?P 2 ?V (k' * 2 + q')"
  proof (intro allI impI)
    fix k' q' :: int
    assume a: "0 \<le> k' \<and> k' < 16 \<and> 0 \<le> q'
                 \<and> q' + 2 \<le> (if k' = 16 - 1 then 32 - k' * 2 else 2)
                 \<and> k' * 2 + q' < 3 * 2 + 0"
    then have "q' = 0" "0 \<le> k' \<and> k' \<le> 2" by (auto split: if_splits)
    with earlier show "\<not> matches_at ?P 2 ?V (k' * 2 + q')" by simp
  qed
  show ?thesis
    by (rule search_in_file_finds_leftmost [OF env lens n32 dc bits k occ left])
qed

text \<open>
  Claim C1 (fails on the code). The buffer below has 64 bytes, so 16 threads scan
  chunks of 4 bytes. The pattern is the UTF-8 encoding of e-acute, the bytes \<open>0xC3\<close>
  \<open>0xA9\<close>; it occurs once in the buffer, at offset 5, inside the chunk 1, which holds
  \<open>a\<close>, \<open>0xC3\<close>, \<open>0xA9\<close>, \<open>b\<close>. The thread 1 compares its first window \<open>a\<close>, \<open>0xC3\<close> from
  the back, mismatches on \<open>0xC3\<close> at the pattern index 1 and looks up the table with
  the index \<open>-61\<close> (see C7). There lies the entry 203 of the table of the thread 0 (the
  entry 200 with 4-byte pointers), which is \<open>-1\<close>, while the entry 195 of the byte \<open>0xC3\<close>
  is 0. Line 116 adds \<open>max 1 (1 - (-1)) = 2\<close> instead of 1: the shift passes over the
  occurrence at the local offset 1, every thread reports \<open>-1\<close>, and the run prints
  that the pattern was not found.
\<close>

theorem signed_lookup_skips_the_occurrence:
  "strlen (''xxxxa'' @ [CHR 0xC3, CHR 0xA9] @ ''b'' @ replicate 56 (CHR ''x'') @ [NUL]) = Inr 64 \<and>
   divide_into_chunks 64 2 = (4, 0, 16) \<and>
   take 2 (drop (1 * 4 + 1)
             (''xxxxa'' @ [CHR 0xC3, CHR 0xA9] @ ''b'' @ replicate 56 (CHR ''x'') @ [NUL]))
     = [CHR 0xC3, CHR 0xA9] \<and>
   search_in_file
     (all_succeed (''xxxxa'' @ [CHR 0xC3, CHR 0xA9] @ ''b'' @ replicate 56 (CHR ''x'') @ [NUL]))
     ''textfile.txt'' [CHR 0xC3, CHR 0xA9, NUL] =
     Some (Not_found,
       [Call_CreateFile, Call_CreateFileMapping, Call_MapViewOfFile,
        Call_generateBadCharacterShiftTable] @ map Call_beginthreadex [0..15]
       @ joined 0 15
       @ [Call_printf '''%s' not found in the file. Searched in %.6f seconds.\<newline>''
            [Arg_string [CHR 0xC3, CHR 0xA9], Arg_seconds],
          Call_UnmapViewOfFile, Call_CloseHandle FileMapping, Call_CloseHandle File]) \<and>
   fst (the (search_in_file
     ((all_succeed (''xxxxa'' @ [CHR 0xC3, CHR 0xA9] @ ''b'' @ replicate 56 (CHR ''x'') @ [NUL]))
        \<lparr>target := Win32\<rparr>)
     ''textfile.txt'' [CHR 0xC3, CHR 0xA9, NUL])) = Not_found"
  by code_simp



end
